theory Spec2Isabelle
  imports Main "HOL-Library.AList"
begin

section \<open>Python string operations used by the sources\<close>

text \<open>
  Strings are lists of characters, and a character is a code point up to U+00FF.
  The whitespace set is what Python's \<open>str.strip()\<close> and \<open>str.split()\<close> treat as
  whitespace among these: the ASCII ones, U+0085 and U+00A0. Text with code points
  above U+00FF is outside this character type.
\<close>

definition is_space :: "char \<Rightarrow> bool" where
  "is_space c = (c \<in> set [CHR 0x09, CHR 0x0A, CHR 0x0B, CHR 0x0C, CHR 0x0D,
                            CHR 0x1C, CHR 0x1D, CHR 0x1E, CHR 0x1F, CHR 0x20,
                            CHR 0x85, CHR 0xA0])"

definition strip :: "string \<Rightarrow> string" where
  "strip s = rev (dropWhile is_space (rev (dropWhile is_space s)))"

definition startswith :: "string \<Rightarrow> string \<Rightarrow> bool" where
  "startswith s p = (take (length p) s = p)"

text \<open>\<open>s.split(c)\<close> for a one-character separator: never empty, \<open>"".split(c) = [""]\<close>.\<close>

fun split_on :: "char \<Rightarrow> string \<Rightarrow> string list" where
  "split_on c [] = [[]]"
| "split_on c (x # xs) =
     (if x = c then [] # split_on c xs
      else (case split_on c xs of [] \<Rightarrow> [[x]] | w # ws \<Rightarrow> (x # w) # ws))"

text \<open>\<open>sep.join(xs)\<close>.\<close>

fun join :: "string \<Rightarrow> string list \<Rightarrow> string" where
  "join sep [] = []"
| "join sep [x] = x"
| "join sep (x # y # ys) = x @ sep @ join sep (y # ys)"

text \<open>\<open>s.replace(p, "")\<close>: every non-overlapping occurrence of \<open>p\<close>, left to right.\<close>

function remove_all :: "string \<Rightarrow> string \<Rightarrow> string" where
  "remove_all p [] = []"
| "remove_all p (x # xs) =
     (if p \<noteq> [] \<and> startswith (x # xs) p then remove_all p (drop (length p) (x # xs))
      else x # remove_all p xs)"
  by pat_completeness auto
termination
  by (relation "measure (\<lambda>(p, s). length s)") (auto simp: startswith_def)

text \<open>\<open>s.split()\<close> with no argument: the maximal runs of non-whitespace characters.\<close>

function py_split :: "string \<Rightarrow> string list" where
  "py_split s =
     (case dropWhile is_space s of
        [] \<Rightarrow> []
      | x # xs \<Rightarrow> takeWhile (\<lambda>c. \<not> is_space c) (x # xs)
                 # py_split (dropWhile (\<lambda>c. \<not> is_space c) xs))"
  by pat_completeness auto
termination
proof (relation "measure length", goal_cases)
  case 1
  show ?case by simp
next
  case (2 s x xs)
  have "length (dropWhile (\<lambda>c. \<not> is_space c) xs) \<le> length xs"
    by (rule length_dropWhile_le)
  moreover have "length (x # xs) \<le> length s"
    using 2 length_dropWhile_le [of is_space s] by simp
  ultimately show ?case by simp
qed

declare py_split.simps [simp del]
declare remove_all.simps [simp del]

section \<open>Errors\<close>

text \<open>The exceptions the modelled code raises or lets through.\<close>

datatype error =
    IndexError
  | PermissionError string
  | ValueError
  | SameFileError
  | FileNotFoundError

section \<open>Response parsers\<close>

text \<open>
  The insertion-ordered \<open>dict\<close> of Python is an association list: assigning to an
  existing key keeps its position, a new key goes to the end. That is \<open>AList.update\<close>.
\<close>

type_synonym files = "(string \<times> string) list"

text \<open>
  Loop state of both parsers: \<open>files\<close>, \<open>current_file\<close> (\<open>None\<close> is Python's
  \<open>None\<close>), \<open>current_content\<close>, and the flag \<open>in_yaml_block\<close> / \<open>in_yaml\<close>.
\<close>

record pstate =
  ps_files :: files
  current_file :: "string option"
  current_content :: "string list"
  in_yaml :: bool

definition init_pstate :: pstate where
  "init_pstate = \<lparr>ps_files = [], current_file = None, current_content = [], in_yaml = False\<rparr>"

text \<open>The test \<open>current_file and current_content\<close>.\<close>

definition open_capture :: "pstate \<Rightarrow> bool" where
  "open_capture s =
     ((case current_file s of None \<Rightarrow> False | Some f \<Rightarrow> f \<noteq> []) \<and> current_content s \<noteq> [])"

definition flush :: "pstate \<Rightarrow> files" where
  "flush s =
     (if open_capture s
      then AList.update (the (current_file s)) (join [CHR 0x0A] (current_content s)) (ps_files s)
      else ps_files s)"

definition is_marker :: "string \<Rightarrow> bool" where
  "is_marker line = startswith (strip line) ''# FILE:''"

definition is_yaml_fence :: "string \<Rightarrow> bool" where
  "is_yaml_fence line = startswith (strip line) ''```yaml''"

definition is_close_fence :: "string \<Rightarrow> bool" where
  "is_close_fence line = (strip line = ''```'')"

subsection \<open>\<open>AIAgent._parse_response\<close> (ai_agent.py)\<close>

definition marker_name :: "string \<Rightarrow> string" where
  "marker_name line = strip (remove_all ''# FILE:'' line)"

definition parse_step :: "string \<Rightarrow> pstate \<Rightarrow> pstate" where
  "parse_step line s =
     (if is_marker line then
        \<lparr>ps_files = flush s, current_file = Some (marker_name line),
         current_content = [], in_yaml = True\<rparr>
      else if is_yaml_fence line then s\<lparr>in_yaml := True\<rparr>
      else if is_close_fence line \<and> in_yaml s then
        (if open_capture s
         then \<lparr>ps_files = flush s, current_file = None, current_content = [], in_yaml = False\<rparr>
         else s\<lparr>in_yaml := False\<rparr>)
      else if in_yaml s \<and> (case current_file s of None \<Rightarrow> False | Some f \<Rightarrow> f \<noteq> []) then
        s\<lparr>current_content := current_content s @ [line]\<rparr>
      else s)"

text \<open>The loop and the final flush, before the allow-list filter of line 211.\<close>

definition parse_capture :: "string \<Rightarrow> files" where
  "parse_capture response = flush (fold parse_step (split_on (CHR 0x0A) response) init_pstate)"

definition parse_response :: "string list \<Rightarrow> string \<Rightarrow> files" where
  "parse_response allowed_files response =
     filter (\<lambda>(k, v). k \<in> set allowed_files) (parse_capture response)"

subsection \<open>\<open>BaseAgent.extract_yaml_from_response\<close> (agents/base_agent.py)\<close>

text \<open>\<open>line.replace("# FILE:", "").strip().split()[0]\<close>; the index raises on no token.\<close>

definition first_token :: "string \<Rightarrow> error + string" where
  "first_token line =
     (case py_split (strip (remove_all ''# FILE:'' line)) of
        [] \<Rightarrow> Inl IndexError
      | t # _ \<Rightarrow> Inr t)"

definition extract_step :: "string \<Rightarrow> pstate \<Rightarrow> error + pstate" where
  "extract_step line s =
     (if is_marker line then
        (case first_token line of
           Inl e \<Rightarrow> Inl e
         | Inr t \<Rightarrow> Inr \<lparr>ps_files = flush s, current_file = Some t,
                         current_content = [], in_yaml = True\<rparr>)
      else if is_yaml_fence line then Inr (s\<lparr>in_yaml := True\<rparr>)
      else if is_close_fence line \<and> in_yaml s then
        Inr \<lparr>ps_files = flush s, current_file = None, current_content = [], in_yaml = False\<rparr>
      else if in_yaml s then Inr (s\<lparr>current_content := current_content s @ [line]\<rparr>)
      else Inr s)"

fun extract_loop :: "string list \<Rightarrow> pstate \<Rightarrow> error + pstate" where
  "extract_loop [] s = Inr s"
| "extract_loop (line # rest) s =
     (case extract_step line s of Inl e \<Rightarrow> Inl e | Inr s' \<Rightarrow> extract_loop rest s')"

definition extract_yaml_from_response :: "string \<Rightarrow> error + files" where
  "extract_yaml_from_response response =
     (case extract_loop (split_on (CHR 0x0A) response) init_pstate of
        Inl e \<Rightarrow> Inl e
      | Inr s \<Rightarrow> Inr (flush s))"

subsection \<open>What a parser state has captured\<close>

text \<open>
  A name is pending when it is the open file and content is buffered for it; it is
  captured when it is a key of \<open>files\<close> already or pending.
\<close>

definition pending :: "string \<Rightarrow> pstate \<Rightarrow> bool" where
  "pending name s = (open_capture s \<and> current_file s = Some name)"

definition captured :: "string \<Rightarrow> pstate \<Rightarrow> bool" where
  "captured name s = (name \<in> fst ` set (ps_files s) \<or> pending name s)"

text \<open>The allow-list of \<open>AIAgent._parse_allowed_files\<close> when \<open>ALLOWED_FILES\<close> is unset.\<close>

definition default_allowed_files :: "string list" where
  "default_allowed_files = [''automations.yaml'', ''scripts.yaml'', ''scenes.yaml'']"

section \<open>Paths and the file system\<close>

text \<open>
  A \<open>pathlib\<close> path is its anchor (absolute or not) and its list of components.
  Constructing one from a string drops empty and \<open>.\<close> components and a trailing
  slash, and keeps \<open>..\<close>, as \<open>PurePosixPath\<close> does (its special case of exactly two
  leading slashes is not modelled).
\<close>

datatype path = Path (is_abs: bool) (parts: "string list")

definition to_path :: "string \<Rightarrow> path" where
  "to_path s =
     Path (startswith s ''/'') (filter (\<lambda>p. p \<noteq> [] \<and> p \<noteq> ''.'') (split_on CHR ''/'' s))"

text \<open>The operator \<open>d / s\<close>: an absolute right operand replaces the left one.\<close>

definition path_join :: "path \<Rightarrow> string \<Rightarrow> path" where
  "path_join d s =
     (let q = to_path s in if is_abs q then q else Path (is_abs d) (parts d @ parts q))"

definition path_name :: "path \<Rightarrow> string" where
  "path_name p = (if parts p = [] then [] else last (parts p))"

text \<open>
  \<open>PurePath.suffix\<close>: with \<open>i = name.rfind('.')\<close>, the text from \<open>i\<close> on when
  \<open>0 < i < len(name) - 1\<close>, else the empty string.
\<close>

definition suffix_of :: "string \<Rightarrow> string" where
  "suffix_of name =
     (let tl = rev (takeWhile (\<lambda>c. c \<noteq> CHR ''.'') (rev name)) in
      if CHR ''.'' \<in> set name \<and> tl \<noteq> [] \<and> Suc (length tl) < length name
      then CHR ''.'' # tl else [])"

text \<open>\<open>PurePath.with_suffix\<close>; it raises \<open>ValueError\<close> on a path with an empty name.\<close>

definition with_suffix :: "path \<Rightarrow> string \<Rightarrow> error + path" where
  "with_suffix p suffix =
     (let name = path_name p in
      if name = [] then Inl ValueError
      else
        let old = suffix_of name;
            name' = (if old = [] then name @ suffix
                     else take (length name - length old) name @ suffix)
        in Inr (Path (is_abs p) (butlast (parts p) @ [name'])))"

text \<open>
  The file system has regular files, a map from paths to contents, and the set of
  directories that exist; the root and the current directory (the paths with no
  component) always exist. What is modelled of a failing operation is the missing
  parent directory. A regular file standing where a directory is needed, or a
  directory standing at a path that the code reads or writes as a file, is outside
  the model. The world also keeps the trace of what was done, in order: each path
  opened for writing, and each outcome that \<open>_validate_config\<close> obtained from the
  \<open>check_config\<close> hook.
\<close>

datatype check_outcome = Valid | Invalid | CheckRaised

datatype event = Wrote path | Validated check_outcome

record world =
  fs :: "path \<rightharpoonup> string"
  dirs :: "path set"
  trace :: "event list"

fun writes :: "event list \<Rightarrow> path list" where
  "writes [] = []"
| "writes (Wrote p # es) = p # writes es"
| "writes (Validated r # es) = writes es"

fun outcomes :: "event list \<Rightarrow> check_outcome list" where
  "outcomes [] = []"
| "outcomes (Wrote p # es) = outcomes es"
| "outcomes (Validated r # es) = r # outcomes es"

text \<open>The paths opened for writing, and the outcomes of the validation hook.\<close>

definition written :: "world \<Rightarrow> path list" where
  "written w = writes (trace w)"

definition validated :: "world \<Rightarrow> check_outcome list" where
  "validated w = outcomes (trace w)"

definition exists :: "world \<Rightarrow> path \<Rightarrow> bool" where
  "exists w p = (fs w p \<noteq> None)"

text \<open>\<open>PurePath.parent\<close>, and the directory itself with the directories above it.\<close>

definition parent :: "path \<Rightarrow> path" where
  "parent p = Path (is_abs p) (butlast (parts p))"

fun prefixes :: "'a list \<Rightarrow> 'a list list" where
  "prefixes [] = []"
| "prefixes (x # xs) = [x] # map ((#) x) (prefixes xs)"

definition ancestors :: "path \<Rightarrow> path list" where
  "ancestors d = map (Path (is_abs d)) (prefixes (parts d))"

definition is_dir :: "world \<Rightarrow> path \<Rightarrow> bool" where
  "is_dir w d = (parts d = [] \<or> d \<in> dirs w)"

text \<open>\<open>Path.mkdir(parents=True, exist_ok=True)\<close>.\<close>

definition mkdir_parents :: "world \<Rightarrow> path \<Rightarrow> world" where
  "mkdir_parents w d = w\<lparr>dirs := dirs w \<union> set (ancestors d)\<rparr>"

text \<open>The effect of a write that succeeds: the file holds the content, the trace grows.\<close>

definition put_file :: "world \<Rightarrow> path \<Rightarrow> string \<Rightarrow> world" where
  "put_file w p content = w\<lparr>fs := (fs w)(p \<mapsto> content), trace := trace w @ [Wrote p]\<rparr>"

text \<open>
  \<open>Path.write_text\<close>: it creates no directory, and raises \<open>FileNotFoundError\<close> when
  the parent directory is missing.
\<close>

definition write_text :: "world \<Rightarrow> path \<Rightarrow> string \<Rightarrow> (error + unit) \<times> world" where
  "write_text w p content =
     (if is_dir w (parent p) then (Inr (), put_file w p content)
      else (Inl FileNotFoundError, w))"

text \<open>
  \<open>YAMLHandler.write_file\<close> (yaml_tools.py):
  \<open>path.parent.mkdir(parents=True, exist_ok=True)\<close>, then \<open>path.write_text(content)\<close>.
\<close>

definition yaml_write_file :: "world \<Rightarrow> path \<Rightarrow> string \<Rightarrow> world" where
  "yaml_write_file w p content = put_file (mkdir_parents w (parent p)) p content"

text \<open>
  \<open>shutil.copy\<close> / \<open>shutil.copy2\<close> between two file paths: \<open>SameFileError\<close> when
  source and destination are the same file, \<open>FileNotFoundError\<close> when the source is
  missing or the directory of the destination is.
\<close>

definition copy_file :: "world \<Rightarrow> path \<Rightarrow> path \<Rightarrow> (error + unit) \<times> world" where
  "copy_file w src dst =
     (case fs w src of
        None \<Rightarrow> (Inl FileNotFoundError, w)
      | Some content \<Rightarrow>
          if src = dst then (Inl SameFileError, w)
          else if \<not> is_dir w (parent dst) then (Inl FileNotFoundError, w)
          else (Inr (), put_file w dst content))"

section \<open>\<open>ConfigManager\<close> (config_manager.py)\<close>

record config_manager =
  config_dir :: path
  backup_dir :: path
  sandbox_dir :: path
  allowed_files :: "string list"

text \<open>\<open>ConfigManager.__init__\<close> creates the backup and the sandbox directory.\<close>

definition config_manager_init :: "'a config_manager_scheme \<Rightarrow> world \<Rightarrow> world" where
  "config_manager_init cm w = mkdir_parents (mkdir_parents w (backup_dir cm)) (sandbox_dir cm)"

definition is_file_allowed :: "'a config_manager_scheme \<Rightarrow> string \<Rightarrow> bool" where
  "is_file_allowed cm filename = (filename \<in> set (allowed_files cm))"

definition get_file_path :: "'a config_manager_scheme \<Rightarrow> string \<Rightarrow> error + path" where
  "get_file_path cm filename =
     (if \<not> is_file_allowed cm filename then Inl (PermissionError filename)
      else Inr (path_join (config_dir cm) filename))"

text \<open>
  The name of a backup. \<open>ts\<close> is the text of
  \<open>datetime.now().strftime("%Y%m%d_%H%M%S")\<close> at the moment of the call, an input of
  the model.
\<close>

definition backup_name :: "string \<Rightarrow> string \<Rightarrow> string" where
  "backup_name filename ts = filename @ ''.'' @ ts @ ''.bak''"

definition create_backup ::
  "'a config_manager_scheme \<Rightarrow> string \<Rightarrow> world \<Rightarrow> string \<Rightarrow> (error + path option) \<times> world" where
  "create_backup cm ts w filename =
     (let filepath = path_join (config_dir cm) filename in
      if \<not> exists w filepath then (Inr None, w)
      else
        let backup_path = path_join (backup_dir cm) (backup_name filename ts) in
        case copy_file w filepath backup_path of
          (Inl e, w') \<Rightarrow> (Inl e, w')
        | (Inr _, w') \<Rightarrow> (Inr (Some backup_path), w'))"

definition write_file ::
  "'a config_manager_scheme \<Rightarrow> string \<Rightarrow> world \<Rightarrow> string \<Rightarrow> string \<Rightarrow> bool
     \<Rightarrow> (error + path) \<times> world" where
  "write_file cm ts w filename content backup =
     (case get_file_path cm filename of
        Inl e \<Rightarrow> (Inl e, w)
      | Inr filepath \<Rightarrow>
          (case (if backup \<and> exists w filepath then create_backup cm ts w filename
                 else (Inr None, w)) of
             (Inl e, w') \<Rightarrow> (Inl e, w')
           | (Inr _, w') \<Rightarrow>
               (case write_text w' filepath content of
                  (Inl e, w'') \<Rightarrow> (Inl e, w'')
                | (Inr _, w'') \<Rightarrow> (Inr filepath, w''))))"

definition write_to_sandbox ::
  "'a config_manager_scheme \<Rightarrow> world \<Rightarrow> string \<Rightarrow> string \<Rightarrow> (error + path) \<times> world" where
  "write_to_sandbox cm w filename content =
     (let sandbox_path = path_join (sandbox_dir cm) filename in
      case write_text w sandbox_path content of
        (Inl e, w') \<Rightarrow> (Inl e, w')
      | (Inr _, w') \<Rightarrow> (Inr sandbox_path, w'))"

text \<open>\<open>".".join(backup_name.split(".")[:-2])\<close>.\<close>

definition original_name :: "path \<Rightarrow> string" where
  "original_name backup_path =
     join ''.'' (butlast (butlast (split_on CHR ''.'' (path_name backup_path))))"

definition restore_backup ::
  "'a config_manager_scheme \<Rightarrow> string \<Rightarrow> world \<Rightarrow> path \<Rightarrow> (error + path) \<times> world" where
  "restore_backup cm ts w backup_path =
     (let orig = original_name backup_path in
      if \<not> is_file_allowed cm orig then (Inl (PermissionError orig), w)
      else
        let target_path = path_join (config_dir cm) orig in
        case (if exists w target_path then create_backup cm ts w orig else (Inr None, w)) of
          (Inl e, w') \<Rightarrow> (Inl e, w')
        | (Inr _, w') \<Rightarrow>
            (case copy_file w' backup_path target_path of
               (Inl e, w'') \<Rightarrow> (Inl e, w'')
             | (Inr _, w'') \<Rightarrow> (Inr target_path, w'')))"

section \<open>\<open>AIAgent._apply_changes\<close> (ai_agent.py)\<close>

text \<open>
  The agent holds the fields of its \<open>ConfigManager\<close> and its own switches. \<open>mode\<close> is
  the text of the environment variable \<open>AI_MODE\<close>.
\<close>

record agent = config_manager +
  mode :: string
  backup_enabled :: bool
  sandbox_enabled :: bool

text \<open>
  What the loop asks of its surroundings: the answer of \<open>Confirm.ask\<close> for a file
  name, the timestamp text when that file is backed up, and the outcome of the
  \<open>n\<close>-th call of \<open>check_config\<close>.
\<close>

record env =
  confirm :: "string \<Rightarrow> bool"
  now :: "string \<Rightarrow> string"
  check_config :: "nat \<Rightarrow> check_outcome"

datatype file_result =
  FileResult (result_file: string) (result_action: string) (result_path: "path option")

text \<open>\<open>_validate_config\<close> only prints what the hook reported.\<close>

definition validate_config :: "env \<Rightarrow> world \<Rightarrow> world" where
  "validate_config e w =
     w\<lparr>trace := trace w @ [Validated (check_config e (length (validated w)))]\<rparr>"

text \<open>\<open>Path(self.sandbox_dir) / f"{filename}.ai.yaml"\<close>, and \<open>Path("/config") / filename\<close>.\<close>

definition staged_path :: "agent \<Rightarrow> string \<Rightarrow> path" where
  "staged_path ag filename = path_join (sandbox_dir ag) (filename @ ''.ai.yaml'')"

definition live_path :: "string \<Rightarrow> path" where
  "live_path filename = path_join (to_path ''/config'') filename"

text \<open>One iteration of the loop over \<open>files.items()\<close>.\<close>

definition apply_one ::
  "agent \<Rightarrow> env \<Rightarrow> string \<times> string \<Rightarrow> file_result list \<Rightarrow> world
     \<Rightarrow> (error + file_result list) \<times> world" where
  "apply_one ag e item results w =
     (let filename = fst item; content = snd item;
          filepath = live_path filename in
      if mode ag = ''read_only'' then
        (Inr (results @ [FileResult filename ''displayed'' None]), w)
      else if mode ag = ''dry_run'' then
        (case with_suffix filepath ''.ai.yaml'' of
           Inl err \<Rightarrow> (Inl err, w)
         | Inr p \<Rightarrow>
             let ai_filepath =
                   (if sandbox_enabled ag then staged_path ag filename else p);
                 w' = (if sandbox_enabled ag then mkdir_parents w (sandbox_dir ag) else w)
             in (Inr (results @ [FileResult filename ''dry_run'' (Some ai_filepath)]),
                 yaml_write_file w' ai_filepath content))
      else if mode ag = ''apply'' then
        (if \<not> confirm e filename then (Inr results, w)
         else
           (case (if backup_enabled ag \<and> exists w filepath
                  then copy_file (mkdir_parents w (backup_dir ag)) filepath
                         (path_join (backup_dir ag) (backup_name filename (now e filename)))
                  else (Inr (), w)) of
              (Inl err, w') \<Rightarrow> (Inl err, w')
            | (Inr _, w') \<Rightarrow>
                (Inr (results @ [FileResult filename ''applied'' None]),
                 validate_config e (yaml_write_file w' filepath content))))
      else (Inr results, w))"

fun apply_loop ::
  "agent \<Rightarrow> env \<Rightarrow> files \<Rightarrow> file_result list \<Rightarrow> world
     \<Rightarrow> (error + file_result list) \<times> world" where
  "apply_loop ag e [] results w = (Inr results, w)"
| "apply_loop ag e (item # rest) results w =
     (case apply_one ag e item results w of
        (Inl err, w') \<Rightarrow> (Inl err, w')
      | (Inr results', w') \<Rightarrow> apply_loop ag e rest results' w')"

definition apply_changes ::
  "agent \<Rightarrow> env \<Rightarrow> files \<Rightarrow> world \<Rightarrow> (error + file_result list) \<times> world" where
  "apply_changes ag e files w = apply_loop ag e files [] w"

text \<open>
  Steps 4 to 6 of \<open>AIAgent.process_request\<close>, from the text that the generation call
  returned: parse it, return at once with no files when nothing is left to update,
  else apply the changes.
\<close>

definition process_response ::
  "agent \<Rightarrow> env \<Rightarrow> string \<Rightarrow> world \<Rightarrow> (error + file_result list) \<times> world" where
  "process_response ag e response w =
     (let files_to_update = parse_response (allowed_files ag) response in
      if files_to_update = [] then (Inr [], w)
      else apply_changes ag e files_to_update w)"

text \<open>
  The paths the apply branch can write for a file name: the live path and the path
  of its backup. \<open>touched_within S w w'\<close>: from \<open>w\<close> to \<open>w'\<close> only paths of \<open>S\<close> were
  opened for writing, and every file outside \<open>S\<close> is as it was.
\<close>

definition apply_paths :: "agent \<Rightarrow> env \<Rightarrow> string \<Rightarrow> path set" where
  "apply_paths ag e f =
     {live_path f, path_join (backup_dir ag) (backup_name f (now e f))}"

definition touched_within :: "path set \<Rightarrow> world \<Rightarrow> world \<Rightarrow> bool" where
  "touched_within S w w' =
     (\<exists>ps. written w' = written w @ ps \<and> set ps \<subseteq> S \<and> (\<forall>p. p \<notin> S \<longrightarrow> fs w' p = fs w p))"

text \<open>Two worlds with the same files, the same directories and the same writes.\<close>

definition same_files :: "world \<Rightarrow> world \<Rightarrow> bool" where
  "same_files w1 w2 = (fs w1 = fs w2 \<and> dirs w1 = dirs w2 \<and> written w1 = written w2)"

text \<open>
  A plain file name: one path component, with no directory part.
\<close>

definition plain_name :: "string \<Rightarrow> bool" where
  "plain_name f = (CHR ''/'' \<notin> set f \<and> f \<noteq> [] \<and> f \<noteq> ''.'' \<and> f \<noteq> ''..'')"

text \<open>
  The events of one applied file, as a block of the trace: the backup copy when one
  is made, the write of the live file, and then one call of the validation hook.
\<close>

definition file_block :: "agent \<Rightarrow> env \<Rightarrow> string \<Rightarrow> event list \<Rightarrow> bool" where
  "file_block ag e f b =
     (\<exists>r. b = [Wrote (live_path f), Validated r] \<or>
          b = [Wrote (path_join (backup_dir ag) (backup_name f (now e f))),
               Wrote (live_path f), Validated r])"

text \<open>\<open>PurePath.is_relative_to\<close>: the path lies under the root, component by component.\<close>

definition is_relative_to :: "path \<Rightarrow> path \<Rightarrow> bool" where
  "is_relative_to p root =
     (is_abs p = is_abs root \<and> take (length (parts root)) (parts p) = parts root)"

section \<open>\<open>YAMLHandler.merge\<close> (yaml_tools.py)\<close>

subsection \<open>Documents as values\<close>

text \<open>
  A parsed document: a scalar, a sequence, or a mapping. A mapping is an
  insertion-ordered \<open>dict\<close>, an association list whose keys are distinct.
\<close>

datatype yaml = Scalar string | Seq "yaml list" | Dict "(string \<times> yaml) list"

type_synonym dict = "(string \<times> yaml) list"

fun wf_yaml :: "yaml \<Rightarrow> bool" where
  "wf_yaml (Scalar s) = True"
| "wf_yaml (Seq xs) = (\<forall>x \<in> set xs. wf_yaml x)"
| "wf_yaml (Dict kvs) = (distinct (map fst kvs) \<and> (\<forall>kv \<in> set kvs. wf_yaml (snd kv)))"

text \<open>
  \<open>merge(base, update)\<close> on the items of the two mappings. \<open>result = base.copy()\<close> is
  the first argument; the loop over \<open>update.items()\<close> is the recursion on the second.
\<close>

fun merge :: "dict \<Rightarrow> dict \<Rightarrow> dict" where
  "merge result [] = result"
| "merge result ((key, val) # rest) =
     merge
       (case (map_of result key, val) of
          (Some (Dict r), Dict v) \<Rightarrow> AList.update key (Dict (merge r v)) result
        | _ \<Rightarrow> AList.update key val result)
       rest"

subsection \<open>Documents as objects in a store\<close>

text \<open>
  For the effect of \<open>merge\<close> on its arguments, every \<open>dict\<close> is an object in a
  store, addressed by its index; a value held in a \<open>dict\<close> is a reference to a
  \<open>dict\<close> or anything else (scalars and sequences, which \<open>merge\<close> never inspects).
  \<open>base.copy()\<close> allocates a new object with the same items. The loop reads
  \<open>update.items()\<close> from the store at each iteration. The first argument bounds the
  number of loop iterations and calls; running out of it, or a reference outside the
  store, gives \<open>None\<close>.
\<close>

datatype pyval = Ref nat | Other string

type_synonym store = "(string \<times> pyval) list list"

text \<open>
  The test \<open>key in result and isinstance(result[key], dict) and isinstance(value, dict)\<close>,
  giving the two objects to merge when it holds.
\<close>

definition both_dicts :: "pyval option \<Rightarrow> pyval \<Rightarrow> (nat \<times> nat) option" where
  "both_dicts held val =
     (case held of
        Some (Ref r) \<Rightarrow> (case val of Ref v \<Rightarrow> Some (r, v) | Other _ \<Rightarrow> None)
      | _ \<Rightarrow> None)"

fun merge_obj :: "nat \<Rightarrow> store \<Rightarrow> nat \<Rightarrow> nat \<Rightarrow> nat option \<times> store"
  and merge_items :: "nat \<Rightarrow> store \<Rightarrow> nat \<Rightarrow> nat \<Rightarrow> nat \<Rightarrow> bool \<times> store" where
  "merge_obj 0 h base upd = (None, h)"
| "merge_obj (Suc n) h base upd =
     (if base < length h \<and> upd < length h then
        (case merge_items n (h @ [h ! base]) (length h) upd 0 of
           (True, h') \<Rightarrow> (Some (length h), h')
         | (False, h') \<Rightarrow> (None, h'))
      else (None, h))"
| "merge_items 0 h res upd i = (False, h)"
| "merge_items (Suc n) h res upd i =
     (if length (h ! upd) \<le> i then (True, h)
      else
        (case both_dicts (map_of (h ! res) (fst (h ! upd ! i))) (snd (h ! upd ! i)) of
           Some (r, v) \<Rightarrow>
             (case merge_obj n h r v of
                (Some m, h') \<Rightarrow>
                  merge_items n (h'[res := AList.update (fst (h ! upd ! i)) (Ref m) (h' ! res)])
                    res upd (Suc i)
              | (None, h') \<Rightarrow> (False, h'))
         | None \<Rightarrow>
             merge_items n
               (h[res := AList.update (fst (h ! upd ! i)) (snd (h ! upd ! i)) (h ! res)])
               res upd (Suc i)))"

text \<open>
  \<open>unchanged_below k h h'\<close>: the store \<open>h'\<close> has every object of \<open>h\<close>, and those at
  addresses below \<open>k\<close> are as they were.
\<close>

definition unchanged_below :: "nat \<Rightarrow> store \<Rightarrow> store \<Rightarrow> bool" where
  "unchanged_below k h h' =
     (length h \<le> length h' \<and> (\<forall>a. a < k \<and> a < length h \<longrightarrow> h' ! a = h ! a))"

section \<open>Example inputs\<close>

text \<open>
  The agent as \<open>AIAgent.__init__\<close> builds it when no environment variable is set, an
  environment that confirms every file, and worlds that have the configuration,
  backup and sandbox directories.
\<close>

definition agent0 :: agent where
  "agent0 = \<lparr>config_dir = to_path ''/config'', backup_dir = to_path ''/config/.ai_backups'',
             sandbox_dir = to_path ''/config/ai_sandbox'',
             allowed_files = default_allowed_files,
             mode = ''dry_run'', backup_enabled = True, sandbox_enabled = True\<rparr>"

definition env0 :: env where
  "env0 = \<lparr>confirm = (\<lambda>_. True), now = (\<lambda>_. ''20240101_120000''),
           check_config = (\<lambda>_. Invalid)\<rparr>"

definition config_dirs :: "path set" where
  "config_dirs = {to_path ''/config'', to_path ''/config/.ai_backups'',
                  to_path ''/config/ai_sandbox''}"

definition world0 :: world where
  "world0 = \<lparr>fs = Map.empty, dirs = config_dirs, trace = []\<rparr>"

definition world_scripts :: world where
  "world_scripts = \<lparr>fs = [to_path ''/config/scripts.yaml'' \<mapsto> ''old''], dirs = config_dirs,
                     trace = []\<rparr>"

definition world_sensors :: world where
  "world_sensors = \<lparr>fs = [to_path ''/config/sensors.yaml'' \<mapsto> ''v1''], dirs = config_dirs,
                     trace = []\<rparr>"

text \<open>
  A world with the live \<open>scripts.yaml\<close> and an earlier backup of it.
\<close>

definition world_restore :: world where
  "world_restore =
     \<lparr>fs = [to_path ''/config/scripts.yaml'' \<mapsto> ''current'',
             to_path ''/config/.ai_backups/scripts.yaml.20231231_235959.bak'' \<mapsto> ''saved''],
      dirs = config_dirs, trace = []\<rparr>"

text \<open>
  A store with \<open>base = {a: 1, b: {x: 1}}\<close> at address 0 and
  \<open>update = {b: {y: 2}, c: s}\<close> at address 2, and the store after merging them.
\<close>

definition store0 :: store where
  "store0 = [[(''a'', Other ''1''), (''b'', Ref 1)], [(''x'', Other ''1'')],
             [(''b'', Ref 3), (''c'', Other ''s'')], [(''y'', Other ''2'')]]"

definition store1 :: store where
  "store1 = store0 @ [[(''a'', Other ''1''), (''b'', Ref 5), (''c'', Other ''s'')],
                      [(''x'', Other ''1''), (''y'', Other ''2'')]]"

section \<open>Properties of \<open>merge\<close>\<close>

text \<open>
  Merging into a mapping any items that it already holds leaves it as it is: each
  key is found with the same value, a nested mapping is merged with itself, and the
  assignment writes back what was there.
\<close>

lemma merge_fixed:
  "distinct (map fst result) \<Longrightarrow> set upd \<subseteq> set result \<Longrightarrow>
   (\<forall>kv \<in> set result. wf_yaml (snd kv)) \<Longrightarrow> merge result upd = result"
proof (induction result upd rule: merge.induct)
  case (1 result)
  show ?case by simp
next
  case (2 result key val rest)
  have look: "map_of result key = Some val"
    using "2.prems" by simp
  show ?case
  proof (cases val)
    case (Dict v)
    have "wf_yaml (Dict v)" using "2.prems" Dict by force
    then have "merge v v = v"
      using "2.IH"(1) [of "Some (Dict v)" val "Dict v" v v] look Dict by simp
    then show ?thesis using look Dict "2.IH"(2) "2.prems" by (simp add: update_triv)
  next
    case (Scalar s)
    then show ?thesis using look "2.IH"(2) "2.prems" by (simp add: update_triv)
  next
    case (Seq xs)
    then show ?thesis using look "2.IH"(2) "2.prems" by (simp add: update_triv)
  qed
qed

text \<open>
  C9. Merge is idempotent: for every document \<open>a\<close> that is a mapping (a \<open>dict\<close>, so
  with distinct keys at every level), \<open>merge(a, a)\<close> equals \<open>a\<close>, with the same
  items in the same order.
\<close>

theorem merge_idempotent: "wf_yaml (Dict a) \<Longrightarrow> merge a a = a"
  using merge_fixed [of a a] by simp

theorem merge_idempotent_witness:
  "wf_yaml (Dict [(''a'', Scalar ''1''), (''b'', Dict [(''x'', Seq [Scalar ''2''])])]) \<and>
   merge [(''a'', Scalar ''1''), (''b'', Dict [(''x'', Seq [Scalar ''2''])])]
         [(''a'', Scalar ''1''), (''b'', Dict [(''x'', Seq [Scalar ''2''])])]
     = [(''a'', Scalar ''1''), (''b'', Dict [(''x'', Seq [Scalar ''2''])])]"
proof -
  have wf: "wf_yaml (Dict [(''a'', Scalar ''1''), (''b'', Dict [(''x'', Seq [Scalar ''2''])])])"
    by simp
  show ?thesis using wf merge_idempotent [OF wf] by simp
qed

section \<open>\<open>merge\<close> leaves its arguments as they are\<close>

lemma unchanged_below_refl: "unchanged_below k h h"
  by (simp add: unchanged_below_def)

lemma unchanged_below_trans:
  "unchanged_below k h1 h2 \<Longrightarrow> unchanged_below k h2 h3 \<Longrightarrow> unchanged_below k h1 h3"
  by (auto simp: unchanged_below_def)

lemma unchanged_below_append: "unchanged_below k h (h @ xs)"
  by (simp add: unchanged_below_def nth_append)

lemma unchanged_below_update: "unchanged_below res h (h[res := x])"
  by (simp add: unchanged_below_def)

lemma unchanged_below_weaken:
  "unchanged_below (length h) h h' \<Longrightarrow> unchanged_below k h h'"
  by (simp add: unchanged_below_def)

text \<open>
  The call changes no object that was in the store; the loop changes none below the
  address of \<open>result\<close>, the copy it assigns to.
\<close>

lemma merge_frame:
  "unchanged_below (length h) h (snd (merge_obj n h base upd))"
  "unchanged_below res h (snd (merge_items n h res upd i))"
proof (induction n h base upd and n h res upd i rule: merge_obj_merge_items.induct)
  case (1 h base upd)
  show ?case by (simp add: unchanged_below_refl)
next
  case (2 n h base upd)
  show ?case
  proof (cases "base < length h \<and> upd < length h")
    case True
    have "unchanged_below (length h) (h @ [h ! base])
            (snd (merge_items n (h @ [h ! base]) (length h) upd 0))"
      using "2.IH" [OF True] .
    then have "unchanged_below (length h) h
            (snd (merge_items n (h @ [h ! base]) (length h) upd 0))"
      using unchanged_below_append unchanged_below_trans by blast
    then show ?thesis using True by (auto split: prod.splits bool.splits)
  next
    case False
    then show ?thesis by (auto simp: unchanged_below_refl)
  qed
next
  case (3 h res upd i)
  show ?case by (simp add: unchanged_below_refl)
next
  case (4 n h res upd i)
  show ?case
  proof (cases "length (h ! upd) \<le> i")
    case True
    then show ?thesis by (simp add: unchanged_below_refl)
  next
    case False
    let ?k = "fst (h ! upd ! i)" and ?v = "snd (h ! upd ! i)"
    show ?thesis
    proof (cases "both_dicts (map_of (h ! res) ?k) ?v")
      case None
      have "unchanged_below res h
              (snd (merge_items n (h[res := AList.update ?k ?v (h ! res)]) res upd (Suc i)))"
        using "4.IH"(1) [OF False None] unchanged_below_update unchanged_below_trans
        by blast
      then show ?thesis using False None by simp
    next
      case (Some rv)
      obtain r v where rv: "rv = (r, v)" by (cases rv)
      obtain m h' where mo: "merge_obj n h r v = (m, h')" by (cases "merge_obj n h r v")
      have "unchanged_below (length h) h h'"
        using "4.IH"(2) [OF False Some rv [symmetric]] mo by simp
      then have e1: "unchanged_below res h h'" by (rule unchanged_below_weaken)
      show ?thesis
      proof (cases m)
        case None
        then show ?thesis using False Some rv mo e1 by simp
      next
        case (Some a)
        note bd = \<open>both_dicts (map_of (h ! res) ?k) ?v = Some rv\<close>
        have "unchanged_below res (h'[res := AList.update ?k (Ref a) (h' ! res)])
                (snd (merge_items n (h'[res := AList.update ?k (Ref a) (h' ! res)])
                        res upd (Suc i)))"
          using "4.IH"(3) [OF False bd rv [symmetric] mo [symmetric] Some] .
        then have "unchanged_below res h
                (snd (merge_items n (h'[res := AList.update ?k (Ref a) (h' ! res)])
                        res upd (Suc i)))"
          using e1 unchanged_below_update unchanged_below_trans by blast
        then show ?thesis using False bd rv mo Some by simp
      qed
    qed
  qed
qed

lemma merge_obj_result:
  "merge_obj n h base upd = (Some m, h') \<Longrightarrow> m = length h \<and> m < length h'"
proof (cases n)
  case 0
  assume "merge_obj n h base upd = (Some m, h')"
  then show ?thesis using 0 by simp
next
  case (Suc k)
  assume a: "merge_obj n h base upd = (Some m, h')"
  have "length (h @ [h ! base]) \<le> length (snd (merge_items k (h @ [h ! base]) (length h) upd 0))"
    using merge_frame(2) [of "length h" "h @ [h ! base]" k upd 0]
    by (simp add: unchanged_below_def)
  then show ?thesis using a Suc
    by (auto split: if_splits prod.splits bool.splits)
qed

text \<open>
  C10. \<open>merge(base, update)\<close> mutates neither of its arguments. Whatever the call
  does (return a result, or fail), every object that was in the store before the
  call, so \<open>base\<close>, \<open>update\<close> and every mapping nested in them, holds the same items
  afterwards; and a returned result is a new object, not one of them.
\<close>

theorem merge_obj_mutates_nothing:
  "merge_obj n h base upd = (r, h') \<Longrightarrow>
     length h \<le> length h' \<and> (\<forall>a < length h. h' ! a = h ! a) \<and>
     (\<forall>m. r = Some m \<longrightarrow> m = length h \<and> m < length h')"
  using merge_frame(1) [of h n base upd] merge_obj_result [of n h base upd _ h']
  by (auto simp: unchanged_below_def)

lemma merge_obj_store0: "merge_obj 10 store0 0 2 = (Some 4, store1)"
  unfolding store0_def store1_def by code_simp

theorem merge_obj_mutates_nothing_witness:
  "merge_obj 10 store0 0 2 = (Some 4, store1) \<and>
   store1 ! 0 = store0 ! 0 \<and> store1 ! 2 = store0 ! 2 \<and> 4 = length store0"
proof -
  have "\<forall>a < length store0. store1 ! a = store0 ! a"
    using merge_obj_mutates_nothing [OF merge_obj_store0] by blast
  moreover have "length store0 = 4" by (simp add: store0_def)
  ultimately show ?thesis using merge_obj_store0 by simp
qed

section \<open>The response parser and the allow-list\<close>

lemma keys_flush: "fst ` set (ps_files s) \<subseteq> fst ` set (flush s)"
  by (auto simp: flush_def dom_update)

lemma pending_flush: "pending name s \<Longrightarrow> name \<in> fst ` set (flush s)"
  by (auto simp: flush_def pending_def dom_update)

lemma captured_flush: "captured name s \<Longrightarrow> name \<in> fst ` set (flush s)"
  using keys_flush pending_flush by (auto simp: captured_def)

text \<open>No step of \<open>_parse_response\<close> loses a captured name.\<close>

lemma captured_step: "captured name s \<Longrightarrow> captured name (parse_step line s)"
  unfolding captured_def
proof (erule disjE)
  assume "name \<in> fst ` set (ps_files s)"
  then have "name \<in> fst ` set (ps_files (parse_step line s))"
    using keys_flush [of s] by (auto simp: parse_step_def)
  then show "name \<in> fst ` set (ps_files (parse_step line s)) \<or> pending name (parse_step line s)" ..
next
  assume p: "pending name s"
  then have "name \<in> fst ` set (flush s)" by (rule pending_flush)
  then show "name \<in> fst ` set (ps_files (parse_step line s)) \<or> pending name (parse_step line s)"
    using p by (auto simp: parse_step_def pending_def open_capture_def)
qed

lemma captured_fold: "captured name s \<Longrightarrow> captured name (fold parse_step ls s)"
  by (induction ls arbitrary: s) (auto intro: captured_step)

text \<open>A name becomes a key only by the flush of a state in which it is pending.\<close>

lemma keys_flush_origin:
  "name \<in> fst ` set (flush s) \<Longrightarrow> name \<in> fst ` set (ps_files s) \<or> pending name s"
  by (auto simp: flush_def pending_def open_capture_def dom_update
           split: if_splits option.splits)

lemma keys_step_origin:
  "name \<in> fst ` set (ps_files (parse_step line s)) \<Longrightarrow>
     name \<in> fst ` set (ps_files s) \<or> pending name s"
  using keys_flush_origin [of name s] by (auto simp: parse_step_def split: if_splits)

lemma keys_fold_origin:
  "name \<in> fst ` set (ps_files (fold parse_step ls s)) \<Longrightarrow>
     name \<in> fst ` set (ps_files s) \<or>
     (\<exists>pre rest. ls = pre @ rest \<and> pending name (fold parse_step pre s))"
proof (induction ls arbitrary: s)
  case Nil
  then show ?case by simp
next
  case (Cons l ls)
  from Cons.IH [of "parse_step l s"] Cons.prems
  consider "name \<in> fst ` set (ps_files (parse_step l s))"
    | pre rest where "ls = pre @ rest" "pending name (fold parse_step pre (parse_step l s))"
    by auto
  then show ?case
  proof cases
    case 1
    then have "name \<in> fst ` set (ps_files s) \<or> pending name s" by (rule keys_step_origin)
    then show ?thesis
    proof
      assume "pending name s"
      then have "l # ls = [] @ (l # ls) \<and> pending name (fold parse_step [] s)" by simp
      then show ?thesis by blast
    qed simp
  next
    case 2
    then have "l # ls = (l # pre) @ rest \<and> pending name (fold parse_step (l # pre) s)" by simp
    then show ?thesis by blast
  qed
qed

lemma pending_prefix_captured:
  assumes "ls = pre @ rest" "pending name (fold parse_step pre s)"
  shows "name \<in> fst ` set (flush (fold parse_step ls s))"
proof -
  have "captured name (fold parse_step pre s)" using assms(2) by (simp add: captured_def)
  then have "captured name (fold parse_step rest (fold parse_step pre s))"
    by (rule captured_fold)
  then show ?thesis using assms(1) by (simp add: captured_flush)
qed

text \<open>The open file name is always the name that a marker line gave.\<close>

lemma current_file_step:
  "current_file (parse_step line s) = Some n \<Longrightarrow>
     (is_marker line \<and> marker_name line = n) \<or> current_file s = Some n"
  by (auto simp: parse_step_def split: if_splits)

lemma current_file_fold:
  "current_file (fold parse_step ls s) = Some n \<Longrightarrow>
     current_file s = Some n \<or> (\<exists>m \<in> set ls. is_marker m \<and> marker_name m = n)"
proof (induction ls arbitrary: s)
  case Nil
  then show ?case by simp
next
  case (Cons l ls)
  from Cons.IH [of "parse_step l s"] Cons.prems
  have "current_file (parse_step l s) = Some n \<or> (\<exists>m \<in> set ls. is_marker m \<and> marker_name m = n)"
    by simp
  then show ?case using current_file_step [of l s n] by auto
qed

text \<open>The same for \<open>extract_yaml_from_response\<close>, whose steps can raise.\<close>

lemma captured_extract_step:
  "extract_step line s = Inr s' \<Longrightarrow> captured name s \<Longrightarrow> captured name s'"
proof -
  assume st: "extract_step line s = Inr s'" and c: "captured name s"
  have fl: "name \<in> fst ` set (flush s)" using c by (rule captured_flush)
  from c show ?thesis unfolding captured_def
  proof
    assume "name \<in> fst ` set (ps_files s)"
    then show "name \<in> fst ` set (ps_files s') \<or> pending name s'"
      using st fl by (auto simp: extract_step_def split: if_splits sum.splits)
  next
    assume "pending name s"
    then show "name \<in> fst ` set (ps_files s') \<or> pending name s'"
      using st fl
      by (auto simp: extract_step_def pending_def open_capture_def split: if_splits sum.splits)
  qed
qed

lemma captured_extract_loop:
  "extract_loop ls s = Inr s' \<Longrightarrow> captured name s \<Longrightarrow> captured name s'"
proof (induction ls arbitrary: s)
  case Nil
  then show ?case by simp
next
  case (Cons l ls)
  then show ?case
    by (cases "extract_step l s") (auto dest: captured_extract_step)
qed

lemma extract_loop_append:
  "extract_loop (pre @ rest) s =
     (case extract_loop pre s of Inl e \<Rightarrow> Inl e | Inr s' \<Rightarrow> extract_loop rest s')"
  by (induction pre arbitrary: s) (auto split: sum.splits)

text \<open>
  C6, as the claim states it, fails on \<open>AIAgent._parse_response\<close>: with the default
  allow-list, the text \<open># FILE: secrets.yaml\<close> followed by one content line is
  captured under \<open>secrets.yaml\<close>, and the returned map is empty.
\<close>

theorem parse_response_drops_unlisted:
  "parse_capture ''# FILE: secrets.yaml\<newline>api_key: 1'' = [(''secrets.yaml'', ''api_key: 1'')] \<and>
   parse_response default_allowed_files ''# FILE: secrets.yaml\<newline>api_key: 1'' = []"
  by code_simp

text \<open>
  C6 (amended). \<open>AIAgent._parse_response\<close> filters its map against the allow-list
  before returning it. A file name is in the capture exactly when, at some point of
  the loop over the lines, it is the open file with content buffered for it, and an
  open file name is always the name given by a \<open># FILE:\<close> marker line read so far.
  Such a name is in the returned map exactly when it is also a member of the
  allow-list. \<open>BaseAgent.extract_yaml_from_response\<close> has no allow-list: when it
  returns, every name that was the open file with buffered content is in its result.
\<close>

theorem parse_response_filters:
  "(name \<in> fst ` set (parse_capture response))
     = (\<exists>pre rest. split_on (CHR 0x0A) response = pre @ rest \<and>
                   pending name (fold parse_step pre init_pstate)) \<and>
   (\<forall>pre. pending name (fold parse_step pre init_pstate) \<longrightarrow>
          (\<exists>m \<in> set pre. is_marker m \<and> marker_name m = name)) \<and>
   (name \<in> fst ` set (parse_response allowed response))
     = (name \<in> fst ` set (parse_capture response) \<and> name \<in> set allowed) \<and>
   (\<forall>pre rest s files.
      split_on (CHR 0x0A) response = pre @ rest \<and> extract_loop pre init_pstate = Inr s \<and>
      pending name s \<and> extract_yaml_from_response response = Inr files
      \<longrightarrow> name \<in> fst ` set files)"
proof (intro conjI)
  let ?ls = "split_on (CHR 0x0A) response"
  show "(name \<in> fst ` set (parse_capture response))
     = (\<exists>pre rest. ?ls = pre @ rest \<and> pending name (fold parse_step pre init_pstate))"
  proof
    assume "name \<in> fst ` set (parse_capture response)"
    then have "name \<in> fst ` set (flush (fold parse_step ?ls init_pstate))"
      by (simp add: parse_capture_def)
    then have "name \<in> fst ` set (ps_files (fold parse_step ?ls init_pstate)) \<or>
               pending name (fold parse_step ?ls init_pstate)"
      by (rule keys_flush_origin)
    then show "\<exists>pre rest. ?ls = pre @ rest \<and> pending name (fold parse_step pre init_pstate)"
    proof
      assume "name \<in> fst ` set (ps_files (fold parse_step ?ls init_pstate))"
      from keys_fold_origin [OF this] show ?thesis by (simp add: init_pstate_def)
    next
      assume "pending name (fold parse_step ?ls init_pstate)"
      then have "?ls = ?ls @ [] \<and> pending name (fold parse_step ?ls init_pstate)" by simp
      then show ?thesis by blast
    qed
  next
    assume "\<exists>pre rest. ?ls = pre @ rest \<and> pending name (fold parse_step pre init_pstate)"
    then show "name \<in> fst ` set (parse_capture response)"
      using pending_prefix_captured [of ?ls _ _ name init_pstate]
      by (auto simp: parse_capture_def)
  qed
next
  show "\<forall>pre. pending name (fold parse_step pre init_pstate) \<longrightarrow>
          (\<exists>m \<in> set pre. is_marker m \<and> marker_name m = name)"
  proof (intro allI impI)
    fix pre
    assume "pending name (fold parse_step pre init_pstate)"
    then have "current_file (fold parse_step pre init_pstate) = Some name"
      by (simp add: pending_def)
    from current_file_fold [OF this]
    show "\<exists>m \<in> set pre. is_marker m \<and> marker_name m = name"
      by (simp add: init_pstate_def)
  qed
next
  show "(name \<in> fst ` set (parse_response allowed response))
     = (name \<in> fst ` set (parse_capture response) \<and> name \<in> set allowed)"
    by (force simp: parse_response_def)
next
  show "\<forall>pre rest s files.
      split_on (CHR 0x0A) response = pre @ rest \<and> extract_loop pre init_pstate = Inr s \<and>
      pending name s \<and> extract_yaml_from_response response = Inr files
      \<longrightarrow> name \<in> fst ` set files"
  proof (intro allI impI, elim conjE)
    fix pre rest s files
    assume sp: "split_on (CHR 0x0A) response = pre @ rest"
      and lp: "extract_loop pre init_pstate = Inr s"
      and pn: "pending name s"
      and ex: "extract_yaml_from_response response = Inr files"
    from ex obtain s' where
      fin: "extract_loop (pre @ rest) init_pstate = Inr s'" and files: "files = flush s'"
      by (auto simp: extract_yaml_from_response_def sp split: sum.splits)
    have "extract_loop rest s = Inr s'" using fin lp by (simp add: extract_loop_append)
    moreover have "captured name s" using pn by (simp add: captured_def)
    ultimately have "captured name s'" by (rule captured_extract_loop)
    then show "name \<in> fst ` set files" using files by (simp add: captured_flush)
  qed
qed

theorem parse_response_filters_witness:
  "split_on (CHR 0x0A)
      ''# FILE: automations.yaml\<newline>```yaml\<newline>- id: a1\<newline>  alias: Test\<newline>```\<newline>''
     = [''# FILE: automations.yaml'', ''```yaml'', ''- id: a1'']
       @ [''  alias: Test'', ''```'', []] \<and>
   pending ''automations.yaml''
     (fold parse_step [''# FILE: automations.yaml'', ''```yaml'', ''- id: a1''] init_pstate) \<and>
   ''automations.yaml'' \<in> fst ` set (parse_capture
      ''# FILE: automations.yaml\<newline>```yaml\<newline>- id: a1\<newline>  alias: Test\<newline>```\<newline>'') \<and>
   ''automations.yaml'' \<in> set default_allowed_files \<and>
   ''automations.yaml'' \<in> fst ` set (parse_response default_allowed_files
      ''# FILE: automations.yaml\<newline>```yaml\<newline>- id: a1\<newline>  alias: Test\<newline>```\<newline>'') \<and>
   extract_loop [''# FILE: automations.yaml'', ''```yaml'', ''- id: a1''] init_pstate
     = Inr \<lparr>ps_files = [], current_file = Some ''automations.yaml'',
            current_content = [''- id: a1''], in_yaml = True\<rparr> \<and>
   extract_yaml_from_response
      ''# FILE: automations.yaml\<newline>```yaml\<newline>- id: a1\<newline>  alias: Test\<newline>```\<newline>''
     = Inr [(''automations.yaml'', ''- id: a1\<newline>  alias: Test'')] \<and>
   ''automations.yaml'' \<in> fst ` set [(''automations.yaml'', ''- id: a1\<newline>  alias: Test'')]"
proof -
  let ?text = "''# FILE: automations.yaml\<newline>```yaml\<newline>- id: a1\<newline>  alias: Test\<newline>```\<newline>''"
  let ?pre = "[''# FILE: automations.yaml'', ''```yaml'', ''- id: a1'']"
  let ?s = "\<lparr>ps_files = [], current_file = Some ''automations.yaml'',
             current_content = [''- id: a1''], in_yaml = True\<rparr>"
  have h1: "split_on (CHR 0x0A) ?text = ?pre @ [''  alias: Test'', ''```'', []]"
    by simp
  have h2: "pending ''automations.yaml'' (fold parse_step ?pre init_pstate)"
    by code_simp
  have h3: "''automations.yaml'' \<in> set default_allowed_files"
    by (simp add: default_allowed_files_def)
  have h4: "extract_loop ?pre init_pstate = Inr ?s"
    by code_simp
  have h5: "pending ''automations.yaml'' ?s"
    by (simp add: pending_def open_capture_def)
  have h6: "extract_yaml_from_response ?text
              = Inr [(''automations.yaml'', ''- id: a1\<newline>  alias: Test'')]"
    by code_simp
  note T = parse_response_filters [of "''automations.yaml''" ?text default_allowed_files]
  have c: "''automations.yaml'' \<in> fst ` set (parse_capture ?text)"
    using T h1 h2 by blast
  have r: "''automations.yaml'' \<in> fst ` set (parse_response default_allowed_files ?text)"
    using T c h3 by blast
  have x: "''automations.yaml'' \<in> fst ` set [(''automations.yaml'', ''- id: a1\<newline>  alias: Test'')]"
    using T h1 h4 h5 h6 by blast
  show ?thesis using h1 h2 h3 h4 h6 c r x by blast
qed

text \<open>
  C7. On the marker line \<open># FILE: automations.yaml (updated)\<close>,
  \<open>AIAgent._parse_response\<close> takes the whole rest of the line as the file name, not
  its first token, and so returns nothing for the file under the default
  allow-list; \<open>BaseAgent.extract_yaml_from_response\<close> takes the first token.
\<close>

theorem parse_response_marker_rest_of_line:
  "current_file (parse_step ''# FILE: automations.yaml (updated)'' init_pstate)
     = Some ''automations.yaml (updated)'' \<and>
   parse_response default_allowed_files ''# FILE: automations.yaml (updated)\<newline>- id: a1'' = [] \<and>
   extract_yaml_from_response ''# FILE: automations.yaml (updated)\<newline>- id: a1''
     = Inr [(''automations.yaml'', ''- id: a1'')]"
  by code_simp

section \<open>The world: trace, files and directories\<close>

lemma writes_append [simp]: "writes (a @ b) = writes a @ writes b"
  by (induction a rule: writes.induct) simp_all

lemma outcomes_append [simp]: "outcomes (a @ b) = outcomes a @ outcomes b"
  by (induction a rule: outcomes.induct) simp_all

lemma put_file_simps [simp]:
  "fs (put_file w p c) = (fs w)(p \<mapsto> c)"
  "dirs (put_file w p c) = dirs w"
  "trace (put_file w p c) = trace w @ [Wrote p]"
  "written (put_file w p c) = written w @ [p]"
  "validated (put_file w p c) = validated w"
  by (simp_all add: put_file_def written_def validated_def)

lemma mkdir_parents_simps [simp]:
  "fs (mkdir_parents w d) = fs w"
  "dirs (mkdir_parents w d) = dirs w \<union> set (ancestors d)"
  "trace (mkdir_parents w d) = trace w"
  "written (mkdir_parents w d) = written w"
  "validated (mkdir_parents w d) = validated w"
  by (simp_all add: mkdir_parents_def written_def validated_def)

lemma yaml_write_file_simps [simp]:
  "fs (yaml_write_file w p c) = (fs w)(p \<mapsto> c)"
  "trace (yaml_write_file w p c) = trace w @ [Wrote p]"
  "written (yaml_write_file w p c) = written w @ [p]"
  "validated (yaml_write_file w p c) = validated w"
  by (simp_all add: yaml_write_file_def)

lemma validate_config_simps [simp]:
  "fs (validate_config e w) = fs w"
  "dirs (validate_config e w) = dirs w"
  "trace (validate_config e w) = trace w @ [Validated (check_config e (length (validated w)))]"
  "written (validate_config e w) = written w"
  "validated (validate_config e w) = validated w @ [check_config e (length (validated w))]"
  by (simp_all add: validate_config_def written_def validated_def)

lemma exists_mkdir_parents [simp]: "exists (mkdir_parents w d) p = exists w p"
  by (simp add: exists_def)

text \<open>After \<open>mkdir\<close> the directory exists, and no directory is lost.\<close>

lemma self_in_prefixes: "xs \<noteq> [] \<Longrightarrow> xs \<in> set (prefixes xs)"
  by (induction xs) auto

lemma is_dir_mkdir_parents: "is_dir (mkdir_parents w d) d"
proof (cases "parts d = []")
  case True
  then show ?thesis by (simp add: is_dir_def)
next
  case False
  then have "parts d \<in> set (prefixes (parts d))" by (rule self_in_prefixes)
  then have "Path (is_abs d) (parts d) \<in> Path (is_abs d) ` set (prefixes (parts d))"
    by (rule imageI)
  then have "d \<in> set (ancestors d)" by (simp add: ancestors_def)
  then show ?thesis by (simp add: is_dir_def)
qed

lemma is_dir_mkdir_parents_mono: "is_dir w d \<Longrightarrow> is_dir (mkdir_parents w d') d"
  by (auto simp: is_dir_def)

section \<open>Splitting, joining and paths\<close>

lemma split_on_nonempty: "split_on c s \<noteq> []"
  by (induction s) (auto split: list.splits)

lemma split_on_absent: "c \<notin> set s \<Longrightarrow> split_on c s = [s]"
  by (induction s) auto

lemma split_on_append: "split_on c (a @ c # b) = split_on c a @ split_on c b"
proof (induction a)
  case Nil
  show ?case by simp
next
  case (Cons x a)
  obtain w ws where "split_on c a = w # ws"
    using split_on_nonempty [of c a] by (cases "split_on c a") auto
  then show ?case using Cons by simp
qed

lemma join_cons_char: "join [c] ((x # w) # ws) = x # join [c] (w # ws)"
  by (cases ws) simp_all

lemma join_split_on: "join [c] (split_on c s) = s"
proof (induction s)
  case Nil
  show ?case by simp
next
  case (Cons x s)
  obtain w ws where sp: "split_on c s = w # ws"
    using split_on_nonempty [of c s] by (cases "split_on c s") auto
  show ?case using Cons sp by (simp add: join_cons_char)
qed

text \<open>A plain file name, with no directory part, is one component of a path.\<close>

lemma to_path_simple:
  "CHR ''/'' \<notin> set s \<Longrightarrow> s \<noteq> [] \<Longrightarrow> s \<noteq> ''.'' \<Longrightarrow> to_path s = Path False [s]"
  by (cases s) (auto simp: to_path_def startswith_def split_on_absent)

lemma path_join_simple:
  "CHR ''/'' \<notin> set s \<Longrightarrow> s \<noteq> [] \<Longrightarrow> s \<noteq> ''.'' \<Longrightarrow>
     path_join d s = Path (is_abs d) (parts d @ [s])"
  by (simp add: path_join_def to_path_simple)

lemma backup_name_simple:
  "CHR ''/'' \<notin> set f \<Longrightarrow> CHR ''/'' \<notin> set ts \<Longrightarrow>
     CHR ''/'' \<notin> set (backup_name f ts) \<and> backup_name f ts \<noteq> [] \<and> backup_name f ts \<noteq> ''.''"
  by (auto simp: backup_name_def)

text \<open>
  For a plain file name and a timestamp without a slash, the backup path is never
  the live path, whatever the two directories are.
\<close>

lemma backup_path_differs:
  assumes "CHR ''/'' \<notin> set f" "f \<noteq> []" "f \<noteq> ''.''" "CHR ''/'' \<notin> set ts"
  shows "path_join c f \<noteq> path_join b (backup_name f ts)"
proof -
  have "f \<noteq> backup_name f ts" by (simp add: backup_name_def)
  then show ?thesis
    using assms backup_name_simple [of f ts] by (simp add: path_join_simple)
qed

text \<open>
  Dropping the last two dot-separated segments of a backup's name gives back the
  file name the backup was made for, when the timestamp has no dot in it.
\<close>

lemma original_name_backup_name:
  assumes "CHR ''/'' \<notin> set f" "CHR ''/'' \<notin> set ts" "CHR ''.'' \<notin> set ts"
  shows "original_name (path_join b (backup_name f ts)) = f"
proof -
  have nm: "path_name (path_join b (backup_name f ts)) = backup_name f ts"
    using assms backup_name_simple [of f ts] by (simp add: path_join_simple path_name_def)
  have "split_on CHR ''.'' (backup_name f ts) = split_on CHR ''.'' f @ [ts, ''bak'']"
    using assms(3) split_on_append [of "CHR ''.''" f "ts @ ''.bak''"]
      split_on_append [of "CHR ''.''" ts "''bak''"]
    by (simp add: backup_name_def split_on_absent)
  then show ?thesis
    by (simp add: original_name_def nm butlast_append join_split_on [of "CHR ''.''", simplified])
qed

text \<open>A file with a plain name lies directly in the directory it is joined to.\<close>

lemma parent_path_join_plain:
  "CHR ''/'' \<notin> set s \<Longrightarrow> s \<noteq> [] \<Longrightarrow> s \<noteq> ''.'' \<Longrightarrow> parent (path_join d s) = d"
  by (simp add: path_join_simple parent_def)

lemma parent_backup_path_plain:
  "CHR ''/'' \<notin> set f \<Longrightarrow> CHR ''/'' \<notin> set ts \<Longrightarrow>
     parent (path_join b (backup_name f ts)) = b"
  using backup_name_simple [of f ts] by (simp add: parent_path_join_plain)

section \<open>Backups, writes and restores of \<open>ConfigManager\<close>\<close>

lemmas example_simps =
  agent0_def default_allowed_files_def config_dirs_def world0_def world_sensors_def
  world_scripts_def world_restore_def env0_def
  create_backup_def copy_file_def write_text_def put_file_def exists_def write_file_def
  get_file_path_def is_file_allowed_def restore_backup_def original_name_def backup_name_def
  is_dir_def parent_def path_join_def to_path_def path_name_def startswith_def Let_def

text \<open>
  C3, as the claim states it, fails: two backups of \<open>sensors.yaml\<close> requested with
  the same timestamp get the same name. The first holds \<open>v1\<close>; after the live file
  is changed to \<open>v2\<close> and backed up again in the same second, the one backup file
  holds \<open>v2\<close>, and \<open>v1\<close> is gone.
\<close>

theorem create_backup_same_second_collides:
  "fst (create_backup agent0 ''20240101_120000'' world_sensors ''sensors.yaml'')
     = Inr (Some (to_path ''/config/.ai_backups/sensors.yaml.20240101_120000.bak'')) \<and>
   fs (snd (create_backup agent0 ''20240101_120000'' world_sensors ''sensors.yaml''))
      (to_path ''/config/.ai_backups/sensors.yaml.20240101_120000.bak'') = Some ''v1'' \<and>
   fst (create_backup agent0 ''20240101_120000''
          (put_file (snd (create_backup agent0 ''20240101_120000'' world_sensors ''sensors.yaml''))
             (to_path ''/config/sensors.yaml'') ''v2'')
          ''sensors.yaml'')
     = Inr (Some (to_path ''/config/.ai_backups/sensors.yaml.20240101_120000.bak'')) \<and>
   fs (snd (create_backup agent0 ''20240101_120000''
          (put_file (snd (create_backup agent0 ''20240101_120000'' world_sensors ''sensors.yaml''))
             (to_path ''/config/sensors.yaml'') ''v2'')
          ''sensors.yaml''))
      (to_path ''/config/.ai_backups/sensors.yaml.20240101_120000.bak'') = Some ''v2''"
  by (simp add: example_simps)

text \<open>
  C3 (amended). Two \<open>create_backup\<close> calls for the same file name whose timestamps
  are the same text return the same backup path, the one named
  \<open><filename>.<timestamp>.bak\<close> with no sequence suffix; after the second call that
  file holds the bytes the live file had at the second call.
\<close>

theorem create_backup_same_second:
  assumes "fst (create_backup cm ts w1 f) = Inr (Some p1)"
      and "fst (create_backup cm ts w2 f) = Inr (Some p2)"
  shows "p1 = p2 \<and> p2 = path_join (backup_dir cm) (backup_name f ts) \<and>
         fs (snd (create_backup cm ts w2 f)) p2 = fs w2 (path_join (config_dir cm) f)"
  using assms
  by (auto simp: create_backup_def copy_file_def Let_def
           split: if_splits option.splits)

theorem create_backup_same_second_witness:
  "fst (create_backup agent0 ''20240101_120000'' world_sensors ''sensors.yaml'')
     = Inr (Some (to_path ''/config/.ai_backups/sensors.yaml.20240101_120000.bak'')) \<and>
   fst (create_backup agent0 ''20240101_120000''
          (put_file world_sensors (to_path ''/config/sensors.yaml'') ''v2'') ''sensors.yaml'')
     = Inr (Some (to_path ''/config/.ai_backups/sensors.yaml.20240101_120000.bak'')) \<and>
   fs (snd (create_backup agent0 ''20240101_120000''
          (put_file world_sensors (to_path ''/config/sensors.yaml'') ''v2'') ''sensors.yaml''))
      (to_path ''/config/.ai_backups/sensors.yaml.20240101_120000.bak'')
     = fs (put_file world_sensors (to_path ''/config/sensors.yaml'') ''v2'')
         (path_join (config_dir agent0) ''sensors.yaml'')"
proof -
  have h1: "fst (create_backup agent0 ''20240101_120000'' world_sensors ''sensors.yaml'')
     = Inr (Some (to_path ''/config/.ai_backups/sensors.yaml.20240101_120000.bak''))"
    by (simp add: example_simps)
  have h2: "fst (create_backup agent0 ''20240101_120000''
          (put_file world_sensors (to_path ''/config/sensors.yaml'') ''v2'') ''sensors.yaml'')
     = Inr (Some (to_path ''/config/.ai_backups/sensors.yaml.20240101_120000.bak''))"
    by (simp add: example_simps)
  show ?thesis using h1 h2 create_backup_same_second [OF h1 h2] by blast
qed

text \<open>
  For a plain file name, the backup directory that \<open>ConfigManager.__init__\<close> made is
  the directory of the backup path. For a name with a directory part it is not, and
  when the directory of the backup path is missing \<open>write_file\<close> raises in the
  backup step and writes nothing.
\<close>

lemma backup_dir_ready:
  assumes "CHR ''/'' \<notin> set f" "CHR ''/'' \<notin> set ts"
  shows "is_dir (config_manager_init cm w) (parent (path_join (backup_dir cm) (backup_name f ts)))"
  using assms is_dir_mkdir_parents [of w "backup_dir cm"]
  by (simp add: parent_backup_path_plain config_manager_init_def is_dir_mkdir_parents_mono)

lemma write_file_backup_dir_missing:
  assumes "is_file_allowed cm f"
      and "fs w (path_join (config_dir cm) f) \<noteq> None"
      and "path_join (config_dir cm) f \<noteq> path_join (backup_dir cm) (backup_name f ts)"
      and "\<not> is_dir w (parent (path_join (backup_dir cm) (backup_name f ts)))"
  shows "write_file cm ts w f content True = (Inl FileNotFoundError, w)"
  using assms
  by (auto simp: write_file_def get_file_path_def create_backup_def copy_file_def
        exists_def Let_def)



text \<open>
  What \<open>restore_backup\<close> does. When the name derived from the backup's name is not
  in the allow-list it raises \<open>PermissionError\<close> and the world is as before. When it
  is, and a file exists at the target path, the first write is the safety backup
  holding the current content, and the second copies onto the live path what the
  backup path holds then: the backup's bytes, unless the safety backup was written
  to that very path, and then the current content. When no file exists at the
  target path, the copy onto the live path is the only write.
\<close>

lemma restore_backup_effect:
  "(\<not> is_file_allowed cm (original_name bp) \<longrightarrow>
      restore_backup cm ts w bp = (Inl (PermissionError (original_name bp)), w))
   \<and> (is_file_allowed cm (original_name bp) \<and>
       fs w (path_join (config_dir cm) (original_name bp)) = Some cur \<and>
       fs w bp = Some bytes \<and>
       path_join (config_dir cm) (original_name bp)
         \<noteq> path_join (backup_dir cm) (backup_name (original_name bp) ts) \<and>
       bp \<noteq> path_join (config_dir cm) (original_name bp) \<and>
       is_dir w (parent (path_join (backup_dir cm) (backup_name (original_name bp) ts))) \<and>
       is_dir w (parent (path_join (config_dir cm) (original_name bp))) \<longrightarrow>
      fst (restore_backup cm ts w bp) = Inr (path_join (config_dir cm) (original_name bp)) \<and>
      written (snd (restore_backup cm ts w bp))
        = written w @ [path_join (backup_dir cm) (backup_name (original_name bp) ts),
                       path_join (config_dir cm) (original_name bp)] \<and>
      fs (snd (restore_backup cm ts w bp))
        = (fs w)(path_join (backup_dir cm) (backup_name (original_name bp) ts) \<mapsto> cur,
                 path_join (config_dir cm) (original_name bp) \<mapsto>
                   (if bp = path_join (backup_dir cm) (backup_name (original_name bp) ts)
                    then cur else bytes)))
   \<and> (is_file_allowed cm (original_name bp) \<and>
       fs w (path_join (config_dir cm) (original_name bp)) = None \<and>
       fs w bp = Some bytes \<and>
       is_dir w (parent (path_join (config_dir cm) (original_name bp))) \<longrightarrow>
      fst (restore_backup cm ts w bp) = Inr (path_join (config_dir cm) (original_name bp)) \<and>
      written (snd (restore_backup cm ts w bp))
        = written w @ [path_join (config_dir cm) (original_name bp)] \<and>
      fs (snd (restore_backup cm ts w bp))
        = (fs w)(path_join (config_dir cm) (original_name bp) \<mapsto> bytes))"
  by (auto simp: restore_backup_def create_backup_def copy_file_def
        exists_def Let_def is_dir_def)

text \<open>
  C8. Restoring the backup \<open>scripts.yaml.20231231_235959.bak\<close>, which holds
  \<open>saved\<close>, while the clock still shows that second and the live file holds
  \<open>current\<close>: the name is derived and allow-listed, and \<open>restore_backup\<close> returns
  the live path, but the safety backup it takes first has the name of the backup
  being restored and overwrites it. The live file still holds \<open>current\<close>
  afterwards and the bytes \<open>saved\<close> are in no file.
\<close>

theorem restore_backup_same_second_loses_backup:
  "original_name (to_path ''/config/.ai_backups/scripts.yaml.20231231_235959.bak'')
     = ''scripts.yaml'' \<and>
   is_file_allowed agent0 ''scripts.yaml'' \<and>
   fs world_restore (to_path ''/config/.ai_backups/scripts.yaml.20231231_235959.bak'')
     = Some ''saved'' \<and>
   fs world_restore (to_path ''/config/scripts.yaml'') = Some ''current'' \<and>
   fst (restore_backup agent0 ''20231231_235959'' world_restore
          (to_path ''/config/.ai_backups/scripts.yaml.20231231_235959.bak''))
     = Inr (to_path ''/config/scripts.yaml'') \<and>
   fs (snd (restore_backup agent0 ''20231231_235959'' world_restore
              (to_path ''/config/.ai_backups/scripts.yaml.20231231_235959.bak'')))
      (to_path ''/config/scripts.yaml'') = Some ''current'' \<and>
   fs (snd (restore_backup agent0 ''20231231_235959'' world_restore
              (to_path ''/config/.ai_backups/scripts.yaml.20231231_235959.bak'')))
      (to_path ''/config/.ai_backups/scripts.yaml.20231231_235959.bak'') = Some ''current'' \<and>
   fs (snd (restore_backup agent0 ''20240101_120000'' world_restore
              (to_path ''/config/.ai_backups/scripts.yaml.20231231_235959.bak'')))
      (to_path ''/config/scripts.yaml'') = Some ''saved''"
  by (simp add: example_simps)

section \<open>The apply loop and the validation hook\<close>

lemmas apply_simps =
  apply_changes_def apply_one_def live_path_def staged_path_def with_suffix_def suffix_of_def
  validate_config_def yaml_write_file_def mkdir_parents_def ancestors_def written_def
  validated_def is_relative_to_def

lemma same_files_copy_file:
  "same_files w1 w2 \<Longrightarrow>
     fst (copy_file w1 src dst) = fst (copy_file w2 src dst) \<and>
     same_files (snd (copy_file w1 src dst)) (snd (copy_file w2 src dst))"
  by (auto simp: same_files_def copy_file_def is_dir_def split: option.splits)

lemma same_files_mkdir_parents:
  "same_files w1 w2 \<Longrightarrow> same_files (mkdir_parents w1 d) (mkdir_parents w2 d)"
  by (simp add: same_files_def)

text \<open>What \<open>check_config\<close> answers changes neither the results nor the files.\<close>

lemma same_files_apply_one:
  assumes "same_files w1 w2"
  shows "fst (apply_one ag (e\<lparr>check_config := c\<rparr>) item rs w1) = fst (apply_one ag e item rs w2) \<and>
         same_files (snd (apply_one ag (e\<lparr>check_config := c\<rparr>) item rs w1))
                    (snd (apply_one ag e item rs w2))"
proof -
  let ?bp = "path_join (backup_dir ag) (backup_name (fst item) (now e (fst item)))"
  let ?m1 = "mkdir_parents w1 (backup_dir ag)" and ?m2 = "mkdir_parents w2 (backup_dir ag)"
  have m: "same_files ?m1 ?m2" using assms by (rule same_files_mkdir_parents)
  note cf = same_files_copy_file [OF m, of "live_path (fst item)" ?bp]
  obtain r1 v1 where c1: "copy_file ?m1 (live_path (fst item)) ?bp = (r1, v1)"
    by (cases "copy_file ?m1 (live_path (fst item)) ?bp")
  obtain r2 v2 where c2: "copy_file ?m2 (live_path (fst item)) ?bp = (r2, v2)"
    by (cases "copy_file ?m2 (live_path (fst item)) ?bp")
  have rr: "r1 = r2" "same_files v1 v2" using cf c1 c2 by simp_all
  show ?thesis
    using assms rr c1 c2
    by (auto simp: apply_one_def Let_def same_files_def yaml_write_file_def exists_def
          split: sum.splits)
qed

lemma same_files_apply_loop:
  "same_files w1 w2 \<Longrightarrow>
     fst (apply_loop ag (e\<lparr>check_config := c\<rparr>) files rs w1) = fst (apply_loop ag e files rs w2) \<and>
     same_files (snd (apply_loop ag (e\<lparr>check_config := c\<rparr>) files rs w1))
                (snd (apply_loop ag e files rs w2))"
proof (induction files arbitrary: rs w1 w2)
  case Nil
  then show ?case by simp
next
  case (Cons item files)
  obtain r1 v1 where a1: "apply_one ag (e\<lparr>check_config := c\<rparr>) item rs w1 = (r1, v1)"
    by (cases "apply_one ag (e\<lparr>check_config := c\<rparr>) item rs w1")
  obtain r2 v2 where a2: "apply_one ag e item rs w2 = (r2, v2)"
    by (cases "apply_one ag e item rs w2")
  have rr: "r1 = r2" "same_files v1 v2"
    using same_files_apply_one [OF Cons.prems, where ag=ag and e=e and c=c and item=item and rs=rs]
      a1 a2 by simp_all
  show ?case
  proof (cases r2)
    case (Inl err)
    then show ?thesis using a1 a2 rr by simp
  next
    case (Inr rs')
    then show ?thesis using a1 a2 rr Cons.IH [OF rr(2), where rs=rs'] by simp
  qed
qed

text \<open>
  In apply mode a declined file changes nothing. A confirmed file that is applied
  adds one result and one block to the trace: its writes, then one call of the hook.
\<close>

lemma apply_one_block:
  assumes "mode ag = ''apply''" "apply_one ag e item rs w = (Inr rs', w')"
  shows "(confirm e (fst item) \<longrightarrow>
            rs' = rs @ [FileResult (fst item) ''applied'' None] \<and>
            (\<exists>b. trace w' = trace w @ b \<and> file_block ag e (fst item) b) \<and>
            length (validated w') = Suc (length (validated w))) \<and>
         (\<not> confirm e (fst item) \<longrightarrow> rs' = rs \<and> w' = w)"
  using assms
  by (auto simp: apply_one_def Let_def copy_file_def file_block_def
        split: if_splits option.splits sum.splits prod.splits)

lemma apply_loop_blocks:
  assumes "mode ag = ''apply''"
  shows "apply_loop ag e files rs w = (Inr rs', w') \<Longrightarrow>
     rs' = rs @ map (\<lambda>f. FileResult f ''applied'' None) (filter (confirm e) (map fst files)) \<and>
     (\<exists>blocks. trace w' = trace w @ concat blocks \<and>
        list_all2 (file_block ag e) (filter (confirm e) (map fst files)) blocks) \<and>
     length (validated w') = length (validated w) + length (filter (confirm e) (map fst files))"
proof (induction files arbitrary: rs w)
  case Nil
  then show ?case by simp
next
  case (Cons item files)
  obtain r1 w1 where a1: "apply_one ag e item rs w = (r1, w1)"
    by (cases "apply_one ag e item rs w")
  show ?case
  proof (cases r1)
    case (Inl err)
    then show ?thesis using Cons.prems a1 by simp
  next
    case (Inr rs1)
    have loop: "apply_loop ag e files rs1 w1 = (Inr rs', w')"
      using Cons.prems a1 Inr by simp
    from Cons.IH [OF loop] obtain blocks where
      ih: "rs' = rs1 @ map (\<lambda>f. FileResult f ''applied'' None) (filter (confirm e) (map fst files))"
          "trace w' = trace w1 @ concat blocks"
          "list_all2 (file_block ag e) (filter (confirm e) (map fst files)) blocks"
          "length (validated w') = length (validated w1) + length (filter (confirm e) (map fst files))"
      by blast
    note one = apply_one_block [OF assms a1 [unfolded Inr]]
    show ?thesis
    proof (cases "confirm e (fst item)")
      case True
      then obtain b where b: "trace w1 = trace w @ b" "file_block ag e (fst item) b"
        using one by blast
      have "trace w' = trace w @ concat (b # blocks)" using ih(2) b(1) by simp
      moreover have "list_all2 (file_block ag e)
                       (filter (confirm e) (map fst (item # files))) (b # blocks)"
        using True b(2) ih(3) by simp
      ultimately have "\<exists>blocks. trace w' = trace w @ concat blocks \<and>
          list_all2 (file_block ag e) (filter (confirm e) (map fst (item # files))) blocks"
        by blast
      then show ?thesis using True one ih(1) ih(4) by simp
    next
      case False
      then have "rs1 = rs" "w1 = w" using one by simp_all
      then show ?thesis using False ih by auto
    qed
  qed
qed

text \<open>
  C5, as the claim states it, fails: in one batch of two confirmed files in apply
  mode the hook is called twice, once after each file.
\<close>

theorem validate_called_per_file:
  "fst (apply_changes (agent0\<lparr>mode := ''apply''\<rparr>) env0
          [(''automations.yaml'', ''a: 1''), (''scripts.yaml'', ''b: 2'')] world0)
     = Inr [FileResult ''automations.yaml'' ''applied'' None,
            FileResult ''scripts.yaml'' ''applied'' None] \<and>
   validated (snd (apply_changes (agent0\<lparr>mode := ''apply''\<rparr>) env0
          [(''automations.yaml'', ''a: 1''), (''scripts.yaml'', ''b: 2'')] world0))
     = [Invalid, Invalid]"
  by (simp add: apply_simps example_simps)

text \<open>
  C5 (amended). In apply mode the validate-configuration hook is called inside the
  loop over the files, once for each file that is applied and right after that
  file's write: the trace of a batch that returns is one block per applied file, in
  order, each block being the file's backup copy when one is made, the write of the
  live file, and then one call of the hook. So the hook is called as many times in
  a batch as files were applied (not at all when every file is declined), not once
  per batch. Its outcome is advisory only: the results, the files and the writes of
  the batch are the same whatever the hook answers, and nothing is rolled back.
\<close>

theorem validate_after_each_applied_file:
  assumes "mode ag = ''apply''"
  shows "(\<forall>rs. fst (apply_changes ag e files w) = Inr rs \<longrightarrow>
            rs = map (\<lambda>f. FileResult f ''applied'' None) (filter (confirm e) (map fst files)) \<and>
            (\<exists>blocks. trace (snd (apply_changes ag e files w)) = trace w @ concat blocks \<and>
               list_all2 (file_block ag e) (filter (confirm e) (map fst files)) blocks) \<and>
            length (validated (snd (apply_changes ag e files w)))
              = length (validated w) + length rs) \<and>
         fst (apply_changes ag (e\<lparr>check_config := c\<rparr>) files w)
           = fst (apply_changes ag e files w) \<and>
         fs (snd (apply_changes ag (e\<lparr>check_config := c\<rparr>) files w))
           = fs (snd (apply_changes ag e files w)) \<and>
         written (snd (apply_changes ag (e\<lparr>check_config := c\<rparr>) files w))
           = written (snd (apply_changes ag e files w))"
proof -
  have "same_files w w" by (simp add: same_files_def)
  then have indep:
    "fst (apply_loop ag (e\<lparr>check_config := c\<rparr>) files [] w) = fst (apply_loop ag e files [] w) \<and>
     same_files (snd (apply_loop ag (e\<lparr>check_config := c\<rparr>) files [] w))
                (snd (apply_loop ag e files [] w))"
    by (rule same_files_apply_loop)
  have count: "\<forall>rs. fst (apply_loop ag e files [] w) = Inr rs \<longrightarrow>
            rs = map (\<lambda>f. FileResult f ''applied'' None) (filter (confirm e) (map fst files)) \<and>
            (\<exists>blocks. trace (snd (apply_loop ag e files [] w)) = trace w @ concat blocks \<and>
               list_all2 (file_block ag e) (filter (confirm e) (map fst files)) blocks) \<and>
            length (validated (snd (apply_loop ag e files [] w)))
              = length (validated w) + length rs"
  proof (intro allI impI)
    fix rs
    assume "fst (apply_loop ag e files [] w) = Inr rs"
    then have "apply_loop ag e files [] w = (Inr rs, snd (apply_loop ag e files [] w))"
      by (metis prod.collapse)
    from apply_loop_blocks [OF assms this]
    show "rs = map (\<lambda>f. FileResult f ''applied'' None) (filter (confirm e) (map fst files)) \<and>
          (\<exists>blocks. trace (snd (apply_loop ag e files [] w)) = trace w @ concat blocks \<and>
             list_all2 (file_block ag e) (filter (confirm e) (map fst files)) blocks) \<and>
          length (validated (snd (apply_loop ag e files [] w))) = length (validated w) + length rs"
      by simp
  qed
  show ?thesis using indep count by (simp add: apply_changes_def same_files_def)
qed

theorem validate_after_each_applied_file_witness:
  "mode (agent0\<lparr>mode := ''apply''\<rparr>) = ''apply'' \<and>
   fst (apply_changes (agent0\<lparr>mode := ''apply''\<rparr>) env0
          [(''automations.yaml'', ''a: 1''), (''scripts.yaml'', ''b: 2'')] world0)
     = Inr [FileResult ''automations.yaml'' ''applied'' None,
            FileResult ''scripts.yaml'' ''applied'' None] \<and>
   trace (snd (apply_changes (agent0\<lparr>mode := ''apply''\<rparr>) env0
          [(''automations.yaml'', ''a: 1''), (''scripts.yaml'', ''b: 2'')] world0))
     = [Wrote (to_path ''/config/automations.yaml''), Validated Invalid,
        Wrote (to_path ''/config/scripts.yaml''), Validated Invalid] \<and>
   length (validated (snd (apply_changes (agent0\<lparr>mode := ''apply''\<rparr>) env0
          [(''automations.yaml'', ''a: 1''), (''scripts.yaml'', ''b: 2'')] world0)))
     = length (validated world0)
       + length [FileResult ''automations.yaml'' ''applied'' None,
                 FileResult ''scripts.yaml'' ''applied'' None] \<and>
   fs (snd (apply_changes (agent0\<lparr>mode := ''apply''\<rparr>) (env0\<lparr>check_config := (\<lambda>_. Valid)\<rparr>)
          [(''automations.yaml'', ''a: 1''), (''scripts.yaml'', ''b: 2'')] world0))
     = fs (snd (apply_changes (agent0\<lparr>mode := ''apply''\<rparr>) env0
          [(''automations.yaml'', ''a: 1''), (''scripts.yaml'', ''b: 2'')] world0))"
proof -
  have h: "mode (agent0\<lparr>mode := ''apply''\<rparr>) = ''apply''" by simp
  have r: "fst (apply_changes (agent0\<lparr>mode := ''apply''\<rparr>) env0
          [(''automations.yaml'', ''a: 1''), (''scripts.yaml'', ''b: 2'')] world0)
     = Inr [FileResult ''automations.yaml'' ''applied'' None,
            FileResult ''scripts.yaml'' ''applied'' None]"
    by (simp add: apply_simps example_simps)
  have t: "trace (snd (apply_changes (agent0\<lparr>mode := ''apply''\<rparr>) env0
          [(''automations.yaml'', ''a: 1''), (''scripts.yaml'', ''b: 2'')] world0))
     = [Wrote (to_path ''/config/automations.yaml''), Validated Invalid,
        Wrote (to_path ''/config/scripts.yaml''), Validated Invalid]"
    by (simp add: apply_simps example_simps)
  show ?thesis
    using h r t
      validate_after_each_applied_file [OF h, of env0
        "[(''automations.yaml'', ''a: 1''), (''scripts.yaml'', ''b: 2'')]" world0 "\<lambda>_. Valid"]
    by blast
qed

section \<open>The apply loop writes for allow-listed names only\<close>

lemma touched_within_refl: "touched_within S w w"
  by (simp add: touched_within_def)

lemma touched_within_trans:
  "touched_within S w1 w2 \<Longrightarrow> touched_within S w2 w3 \<Longrightarrow> touched_within S w1 w3"
  by (auto simp: touched_within_def)

lemma touched_within_mono: "touched_within S w w' \<Longrightarrow> S \<subseteq> T \<Longrightarrow> touched_within T w w'"
  by (auto simp: touched_within_def)

lemma touched_within_put: "p \<in> S \<Longrightarrow> touched_within S w (put_file w p c)"
  by (auto simp: touched_within_def)

lemma touched_within_yaml_write: "p \<in> S \<Longrightarrow> touched_within S w (yaml_write_file w p c)"
  by (auto simp: touched_within_def)

lemma touched_within_mkdir: "touched_within S w (mkdir_parents w d)"
  by (simp add: touched_within_def)

lemma touched_within_validate:
  "touched_within S w w' \<Longrightarrow> touched_within S w (validate_config e w')"
  by (auto simp: touched_within_def)

lemma touched_within_copy: "dst \<in> S \<Longrightarrow> touched_within S w (snd (copy_file w src dst))"
  by (auto simp: copy_file_def touched_within_refl touched_within_put split: option.splits)

lemma apply_one_touches:
  assumes "mode ag = ''apply''" "apply_one ag e item rs w = (r, w')"
  shows "touched_within (apply_paths ag e (fst item)) w w'"
proof -
  let ?S = "apply_paths ag e (fst item)"
  let ?bp = "path_join (backup_dir ag) (backup_name (fst item) (now e (fst item)))"
  let ?m = "mkdir_parents w (backup_dir ag)"
  obtain r1 v1 where c1: "copy_file ?m (live_path (fst item)) ?bp = (r1, v1)"
    by (cases "copy_file ?m (live_path (fst item)) ?bp")
  have "touched_within ?S ?m v1"
    using touched_within_copy [of ?bp ?S ?m "live_path (fst item)"] c1
    by (simp add: apply_paths_def)
  then have t1: "touched_within ?S w v1"
    using touched_within_mkdir touched_within_trans by blast
  have t2: "touched_within ?S v1 (yaml_write_file v1 (live_path (fst item)) (snd item))"
    by (rule touched_within_yaml_write) (simp add: apply_paths_def)
  have t3: "touched_within ?S w (yaml_write_file w (live_path (fst item)) (snd item))"
    by (rule touched_within_yaml_write) (simp add: apply_paths_def)
  have t12: "touched_within ?S w (yaml_write_file v1 (live_path (fst item)) (snd item))"
    using t1 t2 by (rule touched_within_trans)
  show ?thesis
    using assms c1 t1 t12 t3 touched_within_refl [of ?S w]
    by (auto simp: apply_one_def Let_def touched_within_validate
          split: if_splits sum.splits)
qed

lemma apply_loop_touches:
  assumes "mode ag = ''apply''"
  shows "apply_loop ag e files rs w = (r, w') \<Longrightarrow>
     touched_within (\<Union>f \<in> fst ` set files. apply_paths ag e f) w w'"
proof (induction files arbitrary: rs w)
  case Nil
  then show ?case by (auto simp: touched_within_refl)
next
  case (Cons item files)
  let ?S = "\<Union>f \<in> fst ` set (item # files). apply_paths ag e f"
  obtain r1 w1 where a1: "apply_one ag e item rs w = (r1, w1)"
    by (cases "apply_one ag e item rs w")
  have t1: "touched_within ?S w w1"
    using apply_one_touches [OF assms a1] by (auto intro: touched_within_mono)
  show ?case
  proof (cases r1)
    case (Inl err)
    then show ?thesis using Cons.prems a1 t1 by auto
  next
    case (Inr rs1)
    have loop: "apply_loop ag e files rs1 w1 = (r, w')"
      using Cons.prems a1 Inr by simp
    have t2: "touched_within ?S w1 w'"
      using Cons.IH [OF loop] by (auto intro: touched_within_mono)
    show ?thesis using t1 t2 by (rule touched_within_trans)
  qed
qed

text \<open>
  With plain file names and timestamps without a slash, no step of the apply loop
  raises: the backup directory was just made, and the backup path is not the live
  path.
\<close>

lemma apply_one_returns:
  assumes "mode ag = ''apply''" "plain_name (fst item)" "CHR ''/'' \<notin> set (now e (fst item))"
  shows "\<exists>rs'. fst (apply_one ag e item rs w) = Inr rs'"
proof -
  let ?f = "fst item"
  let ?bp = "path_join (backup_dir ag) (backup_name ?f (now e ?f))"
  have ne: "live_path ?f \<noteq> ?bp"
    unfolding live_path_def using assms(2,3)
    by (intro backup_path_differs) (simp_all add: plain_name_def)
  have par: "parent ?bp = backup_dir ag"
    using assms(2,3) by (simp add: parent_backup_path_plain plain_name_def)
  have dir: "is_dir (mkdir_parents w (backup_dir ag)) (parent ?bp)"
    unfolding par by (rule is_dir_mkdir_parents)
  show ?thesis
    using assms(1) ne dir
    by (auto simp: apply_one_def Let_def copy_file_def exists_def split: option.splits)
qed

lemma apply_loop_returns:
  assumes "mode ag = ''apply''"
  shows "\<forall>f \<in> fst ` set files. plain_name f \<and> CHR ''/'' \<notin> set (now e f) \<Longrightarrow>
     \<exists>rs'. fst (apply_loop ag e files rs w) = Inr rs'"
proof (induction files arbitrary: rs w)
  case Nil
  show ?case by simp
next
  case (Cons item files)
  have "plain_name (fst item)" "CHR ''/'' \<notin> set (now e (fst item))"
    using Cons.prems by simp_all
  from apply_one_returns [OF assms this, of rs w]
  obtain rs1 where a: "fst (apply_one ag e item rs w) = Inr rs1" by blast
  have rest: "\<forall>f \<in> fst ` set files. plain_name f \<and> CHR ''/'' \<notin> set (now e f)"
    using Cons.prems by simp
  from Cons.IH [OF rest, of rs1 "snd (apply_one ag e item rs w)"]
  show ?case using a by (cases "apply_one ag e item rs w") simp
qed

lemma wrote_in_writes: "Wrote p \<in> set es \<Longrightarrow> p \<in> set (writes es)"
  by (induction es rule: writes.induct) auto

lemma file_block_writes_live: "file_block ag e f b \<Longrightarrow> Wrote (live_path f) \<in> set b"
  by (auto simp: file_block_def)

lemma blocks_write_live:
  assumes "list_all2 (file_block ag e) fs' blocks" "f \<in> set fs'"
  shows "live_path f \<in> set (writes (concat blocks))"
proof -
  have "\<exists>b \<in> set blocks. file_block ag e f b"
    using assms by (induction rule: list_all2_induct) auto
  then obtain b where "b \<in> set blocks" "file_block ag e f b" by blast
  then have "Wrote (live_path f) \<in> set (concat blocks)"
    using file_block_writes_live by fastforce
  then show ?thesis by (rule wrote_in_writes)
qed

lemma parse_response_keys: "fst ` set (parse_response allowed response) \<subseteq> set allowed"
  by (auto simp: parse_response_def)

lemma parse_response_names:
  "map fst (parse_response allowed response)
     = filter (\<lambda>f. f \<in> set allowed) (map fst (parse_capture response))"
  by (simp add: parse_response_def filter_map comp_def case_prod_unfold)

lemma process_response_loop:
  "process_response ag e response w
     = apply_loop ag e (parse_response (allowed_files ag) response) [] w"
  by (simp add: process_response_def apply_changes_def Let_def)

text \<open>
  C2, as the claim states it, fails. A file name of the generated text that is not
  in the allow-list is dropped by the filter of \<open>_parse_response\<close>, and the request
  records nothing for it, no \<open>Rejected\<close> result either. The loop itself has no
  allow-list check: handed \<open>secrets.yaml\<close> directly, it writes the file and records
  \<open>applied\<close>.
\<close>

theorem unlisted_file_not_recorded:
  "parse_capture ''# FILE: secrets.yaml\<newline>api_key: 1'' = [(''secrets.yaml'', ''api_key: 1'')] \<and>
   process_response (agent0\<lparr>mode := ''apply''\<rparr>) env0
       ''# FILE: secrets.yaml\<newline>api_key: 1'' world0 = (Inr [], world0) \<and>
   fst (apply_changes (agent0\<lparr>mode := ''apply''\<rparr>) env0
          [(''secrets.yaml'', ''api_key: 1'')] world0)
     = Inr [FileResult ''secrets.yaml'' ''applied'' None] \<and>
   written (snd (apply_changes (agent0\<lparr>mode := ''apply''\<rparr>) env0
          [(''secrets.yaml'', ''api_key: 1'')] world0))
     = [to_path ''/config/secrets.yaml'']"
proof -
  have c: "parse_capture ''# FILE: secrets.yaml\<newline>api_key: 1'' = [(''secrets.yaml'', ''api_key: 1'')]"
    by code_simp
  have p: "parse_response (allowed_files (agent0\<lparr>mode := ''apply''\<rparr>))
      ''# FILE: secrets.yaml\<newline>api_key: 1'' = []"
    unfolding agent0_def by code_simp
  show ?thesis unfolding process_response_def p using c by (simp add: apply_simps example_simps)
qed

text \<open>
  C2 (amended). In apply mode a file name of the generated text that is not a
  member of the allow-list is dropped by the parser's filter before the loop: no
  result is recorded for it, and the batch goes on with the other files. A request
  that returns has exactly one \<open>applied\<close> result for each captured name that is
  allow-listed and confirmed, in the order of the capture, and the live path of
  each of them has been written; with plain allow-listed names and timestamps
  without a slash the request does return. Every path that is opened for writing
  or whose content changes is the live path or the backup path of an allow-listed
  name; no backup and no write is made for any other name.
\<close>

theorem apply_only_allowed:
  assumes "mode ag = ''apply''"
  shows "(\<forall>rs. fst (process_response ag e response w) = Inr rs \<longrightarrow>
            rs = map (\<lambda>f. FileResult f ''applied'' None)
                   (filter (confirm e)
                      (filter (\<lambda>f. f \<in> set (allowed_files ag)) (map fst (parse_capture response)))) \<and>
            (\<forall>f \<in> set (map fst (parse_capture response)).
                f \<in> set (allowed_files ag) \<and> confirm e f \<longrightarrow>
                live_path f \<in> set (written (snd (process_response ag e response w))))) \<and>
         ((\<forall>f \<in> set (allowed_files ag). plain_name f \<and> CHR ''/'' \<notin> set (now e f)) \<longrightarrow>
            (\<exists>rs. fst (process_response ag e response w) = Inr rs)) \<and>
         (\<forall>p. (p \<in> set (written (snd (process_response ag e response w))) \<and> p \<notin> set (written w))
               \<or> fs (snd (process_response ag e response w)) p \<noteq> fs w p
             \<longrightarrow> (\<exists>f \<in> set (allowed_files ag).
                    p = live_path f \<or> p = path_join (backup_dir ag) (backup_name f (now e f))))"
proof (intro conjI)
  let ?files = "parse_response (allowed_files ag) response"
  let ?R = "apply_loop ag e ?files [] w"
  let ?names = "filter (confirm e)
                  (filter (\<lambda>f. f \<in> set (allowed_files ag)) (map fst (parse_capture response)))"
  note pr = process_response_loop [of ag e response w]
  have keys: "fst ` set ?files \<subseteq> set (allowed_files ag)" by (rule parse_response_keys)
  show "\<forall>rs. fst (process_response ag e response w) = Inr rs \<longrightarrow>
            rs = map (\<lambda>f. FileResult f ''applied'' None) ?names \<and>
            (\<forall>f \<in> set (map fst (parse_capture response)).
                f \<in> set (allowed_files ag) \<and> confirm e f \<longrightarrow>
                live_path f \<in> set (written (snd (process_response ag e response w))))"
  proof (intro allI impI)
    fix rs
    assume "fst (process_response ag e response w) = Inr rs"
    then have "?R = (Inr rs, snd ?R)" unfolding pr by (metis prod.collapse)
    from apply_loop_blocks [OF assms this] obtain blocks where
      b: "rs = map (\<lambda>f. FileResult f ''applied'' None) (filter (confirm e) (map fst ?files))"
         "trace (snd ?R) = trace w @ concat blocks"
         "list_all2 (file_block ag e) (filter (confirm e) (map fst ?files)) blocks"
      by auto
    have names: "filter (confirm e) (map fst ?files) = ?names"
      by (simp add: parse_response_names)
    have live: "\<forall>f \<in> set ?names. live_path f \<in> set (written (snd ?R))"
    proof
      fix f assume "f \<in> set ?names"
      then have "live_path f \<in> set (writes (concat blocks))"
        using blocks_write_live [OF b(3), of f] names by simp
      then show "live_path f \<in> set (written (snd ?R))"
        by (simp add: written_def b(2))
    qed
    show "rs = map (\<lambda>f. FileResult f ''applied'' None) ?names \<and>
            (\<forall>f \<in> set (map fst (parse_capture response)).
                f \<in> set (allowed_files ag) \<and> confirm e f \<longrightarrow>
                live_path f \<in> set (written (snd (process_response ag e response w))))"
      unfolding pr using b(1) names live by auto
  qed
next
  let ?files = "parse_response (allowed_files ag) response"
  have keys: "fst ` set ?files \<subseteq> set (allowed_files ag)" by (rule parse_response_keys)
  show "(\<forall>f \<in> set (allowed_files ag). plain_name f \<and> CHR ''/'' \<notin> set (now e f)) \<longrightarrow>
            (\<exists>rs. fst (process_response ag e response w) = Inr rs)"
  proof
    assume "\<forall>f \<in> set (allowed_files ag). plain_name f \<and> CHR ''/'' \<notin> set (now e f)"
    then have "\<forall>f \<in> fst ` set ?files. plain_name f \<and> CHR ''/'' \<notin> set (now e f)"
      using keys by blast
    from apply_loop_returns [OF assms this, of "[]" w]
    show "\<exists>rs. fst (process_response ag e response w) = Inr rs"
      by (simp add: process_response_loop)
  qed
next
  let ?files = "parse_response (allowed_files ag) response"
  let ?R = "apply_loop ag e ?files [] w"
  have keys: "fst ` set ?files \<subseteq> set (allowed_files ag)" by (rule parse_response_keys)
  have "?R = (fst ?R, snd ?R)" by simp
  from apply_loop_touches [OF assms this]
  have tw: "touched_within (\<Union>f \<in> set (allowed_files ag). apply_paths ag e f) w (snd ?R)"
    using keys by (auto intro: touched_within_mono)
  have "\<forall>p. (p \<in> set (written (snd ?R)) \<and> p \<notin> set (written w)) \<or> fs (snd ?R) p \<noteq> fs w p
             \<longrightarrow> (\<exists>f \<in> set (allowed_files ag).
                    p = live_path f \<or> p = path_join (backup_dir ag) (backup_name f (now e f)))"
    using tw unfolding touched_within_def apply_paths_def by fastforce
  then show "\<forall>p. (p \<in> set (written (snd (process_response ag e response w))) \<and> p \<notin> set (written w))
               \<or> fs (snd (process_response ag e response w)) p \<noteq> fs w p
             \<longrightarrow> (\<exists>f \<in> set (allowed_files ag).
                    p = live_path f \<or> p = path_join (backup_dir ag) (backup_name f (now e f)))"
    by (simp add: process_response_loop)
qed

theorem apply_only_allowed_witness:
  "mode (agent0\<lparr>mode := ''apply''\<rparr>) = ''apply'' \<and>
   plain_name ''automations.yaml'' \<and> plain_name ''scripts.yaml'' \<and> plain_name ''scenes.yaml'' \<and>
   CHR ''/'' \<notin> set ''20240101_120000'' \<and>
   map fst (parse_capture
      ''# FILE: secrets.yaml\<newline>api_key: 1\<newline># FILE: scripts.yaml\<newline>a: 1'')
     = [''secrets.yaml'', ''scripts.yaml''] \<and>
   fst (process_response (agent0\<lparr>mode := ''apply''\<rparr>) env0
          ''# FILE: secrets.yaml\<newline>api_key: 1\<newline># FILE: scripts.yaml\<newline>a: 1'' world0)
     = Inr [FileResult ''scripts.yaml'' ''applied'' None] \<and>
   live_path ''scripts.yaml''
     \<in> set (written (snd (process_response (agent0\<lparr>mode := ''apply''\<rparr>) env0
          ''# FILE: secrets.yaml\<newline>api_key: 1\<newline># FILE: scripts.yaml\<newline>a: 1'' world0)))"
proof -
  let ?ag = "agent0\<lparr>mode := ''apply''\<rparr>"
  let ?text = "''# FILE: secrets.yaml\<newline>api_key: 1\<newline># FILE: scripts.yaml\<newline>a: 1''"
  have h: "mode ?ag = ''apply''" by simp
  have pl: "plain_name ''automations.yaml''" "plain_name ''scripts.yaml''"
    "plain_name ''scenes.yaml''" "CHR ''/'' \<notin> set ''20240101_120000''"
    by (simp_all add: plain_name_def)
  have hyp: "\<forall>f \<in> set (allowed_files ?ag). plain_name f \<and> CHR ''/'' \<notin> set (now env0 f)"
    using pl by (simp add: agent0_def default_allowed_files_def env0_def)
  have cap: "map fst (parse_capture ?text) = [''secrets.yaml'', ''scripts.yaml'']"
    by code_simp
  have al: "''scripts.yaml'' \<in> set (allowed_files ?ag)" "''secrets.yaml'' \<notin> set (allowed_files ?ag)"
    by (simp_all add: agent0_def default_allowed_files_def)
  have cf: "confirm env0 ''scripts.yaml''" by (simp add: env0_def)
  note T = apply_only_allowed [OF h, of env0 ?text world0]
  from T hyp obtain rs where rs: "fst (process_response ?ag env0 ?text world0) = Inr rs"
    by blast
  have "rs = map (\<lambda>f. FileResult f ''applied'' None)
               (filter (confirm env0)
                  (filter (\<lambda>f. f \<in> set (allowed_files ?ag)) (map fst (parse_capture ?text))))"
    using T rs by blast
  then have r: "rs = [FileResult ''scripts.yaml'' ''applied'' None]"
    unfolding cap using al cf by simp
  have "\<forall>f \<in> set (map fst (parse_capture ?text)).
          f \<in> set (allowed_files ?ag) \<and> confirm env0 f \<longrightarrow>
          live_path f \<in> set (written (snd (process_response ?ag env0 ?text world0)))"
    using T rs by blast
  then have l: "live_path ''scripts.yaml''
     \<in> set (written (snd (process_response ?ag env0 ?text world0)))"
    unfolding cap using al cf by simp
  show ?thesis using h pl cap rs r l by blast
qed

section \<open>Dry-run mode\<close>

lemma apply_one_dry_run:
  assumes "mode ag = ''dry_run''" "sandbox_enabled ag" "path_name (live_path (fst item)) \<noteq> []"
  shows "apply_one ag e item rs w =
           (Inr (rs @ [FileResult (fst item) ''dry_run'' (Some (staged_path ag (fst item)))]),
            yaml_write_file (mkdir_parents w (sandbox_dir ag)) (staged_path ag (fst item))
              (snd item))"
  using assms by (simp add: apply_one_def with_suffix_def Let_def)

lemma apply_loop_dry_run:
  assumes "mode ag = ''dry_run''" "sandbox_enabled ag"
  shows "\<forall>f \<in> fst ` set files. path_name (live_path f) \<noteq> [] \<Longrightarrow>
     fst (apply_loop ag e files rs w)
       = Inr (rs @ map (\<lambda>item. FileResult (fst item) ''dry_run'' (Some (staged_path ag (fst item)))) files) \<and>
     written (snd (apply_loop ag e files rs w))
       = written w @ map (\<lambda>item. staged_path ag (fst item)) files \<and>
     validated (snd (apply_loop ag e files rs w)) = validated w \<and>
     (\<forall>p. p \<notin> (\<lambda>item. staged_path ag (fst item)) ` set files \<longrightarrow>
          fs (snd (apply_loop ag e files rs w)) p = fs w p) \<and>
     (distinct (map (\<lambda>item. staged_path ag (fst item)) files) \<longrightarrow>
        (\<forall>item \<in> set files.
           fs (snd (apply_loop ag e files rs w)) (staged_path ag (fst item)) = Some (snd item)))"
proof (induction files arbitrary: rs w)
  case Nil
  show ?case by simp
next
  case (Cons item files)
  let ?sp = "staged_path ag (fst item)"
  let ?w1 = "yaml_write_file (mkdir_parents w (sandbox_dir ag)) ?sp (snd item)"
  let ?rs1 = "rs @ [FileResult (fst item) ''dry_run'' (Some ?sp)]"
  have nm: "path_name (live_path (fst item)) \<noteq> []" using Cons.prems by simp
  have one: "apply_one ag e item rs w = (Inr ?rs1, ?w1)"
    by (rule apply_one_dry_run [OF assms nm])
  have step: "apply_loop ag e (item # files) rs w = apply_loop ag e files ?rs1 ?w1"
    using one by simp
  have rest: "\<forall>f \<in> fst ` set files. path_name (live_path f) \<noteq> []" using Cons.prems by simp
  note ih = Cons.IH [OF rest, of ?rs1 ?w1]
  have w1: "written ?w1 = written w @ [?sp]" "validated ?w1 = validated w"
    "fs ?w1 ?sp = Some (snd item)" "\<And>p. p \<noteq> ?sp \<Longrightarrow> fs ?w1 p = fs w p"
    by simp_all
  show ?case unfolding step using ih w1 by auto
qed

text \<open>
  C1, as the claim states it, fails. With the sandbox switched off, dry-run mode
  writes \<open>automations.ai.yaml\<close> into the configuration root itself; with every
  setting at its default the staging directory is \<open>/config/ai_sandbox\<close>, and the
  staged file is again a path under \<open>/config\<close>.
\<close>

theorem dry_run_writes_under_config:
  "written (snd (apply_changes (agent0\<lparr>sandbox_enabled := False\<rparr>) env0
                  [(''automations.yaml'', ''- id: a1'')] world0))
     = [to_path ''/config/automations.ai.yaml''] \<and>
   is_relative_to (to_path ''/config/automations.ai.yaml'') (to_path ''/config'') \<and>
   written (snd (apply_changes agent0 env0 [(''automations.yaml'', ''- id: a1'')] world0))
     = [to_path ''/config/ai_sandbox/automations.yaml.ai.yaml''] \<and>
   is_relative_to (to_path ''/config/ai_sandbox/automations.yaml.ai.yaml'') (to_path ''/config'')"
  by (simp add: apply_simps example_simps)

text \<open>
  C1 (amended). In a dry-run cycle with the sandbox enabled, the paths opened for
  writing are exactly the staging paths \<open><sandbox_dir>/<filename>.ai.yaml\<close>, one per
  input file name and in input order; every file at any other path, so every live
  file that is not itself such a staging path, is unchanged; and when the staging
  paths are pairwise distinct, each holds the content generated for its file name.
  The cycle returns one \<open>dry_run\<close> result per file.
\<close>

theorem dry_run_writes_only_staged:
  assumes "mode ag = ''dry_run''" "sandbox_enabled ag"
      and "\<forall>f \<in> fst ` set files. path_name (live_path f) \<noteq> []"
  shows
    "fst (apply_changes ag e files w)
       = Inr (map (\<lambda>item. FileResult (fst item) ''dry_run'' (Some (staged_path ag (fst item)))) files) \<and>
     written (snd (apply_changes ag e files w))
       = written w @ map (\<lambda>item. staged_path ag (fst item)) files \<and>
     (\<forall>p. p \<notin> (\<lambda>item. staged_path ag (fst item)) ` set files \<longrightarrow>
          fs (snd (apply_changes ag e files w)) p = fs w p) \<and>
     (distinct (map (\<lambda>item. staged_path ag (fst item)) files) \<longrightarrow>
        (\<forall>item \<in> set files.
           fs (snd (apply_changes ag e files w)) (staged_path ag (fst item)) = Some (snd item)))"
  using apply_loop_dry_run [OF assms, of e "[]" w] by (simp add: apply_changes_def)


theorem dry_run_writes_only_staged_witness:
  "mode agent0 = ''dry_run'' \<and> sandbox_enabled agent0 \<and>
   path_name (live_path ''automations.yaml'') \<noteq> [] \<and>
   path_name (live_path ''scripts.yaml'') \<noteq> [] \<and>
   written (snd (apply_changes agent0 env0
                  [(''automations.yaml'', ''a: 1''), (''scripts.yaml'', ''b: 2'')] world_scripts))
     = written world_scripts
         @ [staged_path agent0 ''automations.yaml'', staged_path agent0 ''scripts.yaml''] \<and>
   fs (snd (apply_changes agent0 env0
              [(''automations.yaml'', ''a: 1''), (''scripts.yaml'', ''b: 2'')] world_scripts))
      (to_path ''/config/scripts.yaml'')
     = fs world_scripts (to_path ''/config/scripts.yaml'') \<and>
   fs (snd (apply_changes agent0 env0
              [(''automations.yaml'', ''a: 1''), (''scripts.yaml'', ''b: 2'')] world_scripts))
      (staged_path agent0 ''scripts.yaml'')
     = Some ''b: 2''"
proof -
  let ?files = "[(''automations.yaml'', ''a: 1''), (''scripts.yaml'', ''b: 2'')]"
  have h1: "mode agent0 = ''dry_run''" by (simp add: agent0_def)
  have h2: "sandbox_enabled agent0" by (simp add: agent0_def)
  have n1: "path_name (live_path ''automations.yaml'') \<noteq> []"
    by (simp add: apply_simps example_simps)
  have n2: "path_name (live_path ''scripts.yaml'') \<noteq> []"
    by (simp add: apply_simps example_simps)
  have h3: "\<forall>f \<in> fst ` set ?files. path_name (live_path f) \<noteq> []"
    using n1 n2 by simp
  note T = dry_run_writes_only_staged [OF h1 h2 h3, of env0 world_scripts]
  have d: "distinct (map (\<lambda>item. staged_path agent0 (fst item)) ?files)"
    by (simp add: apply_simps example_simps)
  have np: "to_path ''/config/scripts.yaml''
              \<notin> (\<lambda>item. staged_path agent0 (fst item)) ` set ?files"
    by (simp add: apply_simps example_simps)
  have w: "written (snd (apply_changes agent0 env0 ?files world_scripts))
     = written world_scripts
         @ [staged_path agent0 ''automations.yaml'', staged_path agent0 ''scripts.yaml'']"
    using T by simp
  have u: "fs (snd (apply_changes agent0 env0 ?files world_scripts)) (to_path ''/config/scripts.yaml'')
     = fs world_scripts (to_path ''/config/scripts.yaml'')"
    using T np by blast
  have "\<forall>item \<in> set ?files.
           fs (snd (apply_changes agent0 env0 ?files world_scripts)) (staged_path agent0 (fst item))
             = Some (snd item)"
    using T d by blast
  then have st: "fs (snd (apply_changes agent0 env0 ?files world_scripts))
      (staged_path agent0 ''scripts.yaml'') = Some ''b: 2''"
    by simp
  show ?thesis using h1 h2 n1 n2 w u st by blast
qed

end
